theory Spec2Isabelle
  imports Main
begin

section \<open>Python values: exceptions, results, string conversion of integers\<close>

text \<open>
  Exceptions are values. Only the exception classes the program distinguishes are
  separate constructors: a missing dictionary key (\<open>KeyError\<close>), gql's
  \<open>TransportServerError\<close> with its message and its optional status \<open>code\<close>,
  \<open>OverflowError\<close> of date arithmetic, and every other exception by its message.
\<close>

datatype exn =
    KeyError string
  | TransportServerError string "int option"
  | OverflowError
  | OtherException string

type_synonym 'a result = "exn + 'a"

definition bind_r :: "'a result \<Rightarrow> ('a \<Rightarrow> 'b result) \<Rightarrow> 'b result" where
  "bind_r r f = (case r of Inl e \<Rightarrow> Inl e | Inr v \<Rightarrow> f v)"

text \<open>\<open>d[key]\<close> on a loaded dictionary: a field that the response did not carry is absent
  from the dictionary marshmallow returns, and reading it raises \<open>KeyError\<close>.\<close>

definition getitem :: "'a option \<Rightarrow> string \<Rightarrow> 'a result" where
  "getitem v k = (case v of None \<Rightarrow> Inl (KeyError k) | Some x \<Rightarrow> Inr x)"

text \<open>A list comprehension whose element expression may raise: the first exception ends it.\<close>

fun list_comprehension :: "('a \<Rightarrow> 'b result) \<Rightarrow> 'a list \<Rightarrow> 'b list result" where
  "list_comprehension f [] = Inr []"
| "list_comprehension f (x # xs) =
     bind_r (f x) (\<lambda>y. bind_r (list_comprehension f xs) (\<lambda>ys. Inr (y # ys)))"

definition digit_char :: "nat \<Rightarrow> char" where
  "digit_char d = ''0123456789'' ! d"

fun str_nat :: "nat \<Rightarrow> string" where
  "str_nat n = (if n < 10 then [digit_char n] else str_nat (n div 10) @ [digit_char (n mod 10)])"

declare str_nat.simps [simp del]

text \<open>\<open>str(i)\<close> for a Python \<open>int\<close>.\<close>

definition str_int :: "int \<Rightarrow> string" where
  "str_int i = (if i < 0 then CHR ''-'' # str_nat (nat (- i)) else str_nat (nat i))"

section \<open>Category list and the category-to-group lookup\<close>

text \<open>
  The dictionaries marshmallow hands to the \<open>post_load\<close> hooks, one datatype per schema.
  A field declared \<open>required=True\<close> is always there; every other field is optional.
  The first \<open>CategorySchema\<close> of the module (with \<open>group\<close>) is the one
  \<open>CategoryQuerySchema\<close> nests.
\<close>

datatype group_d = GroupD (g_id: int) (g_name: "string option")

datatype category_d = CategoryD (c_id: int) (c_name: "string option") (c_group: "group_d option")

type_synonym catmap = "string \<rightharpoonup> string"

fun make_map_loop :: "category_d list \<Rightarrow> catmap \<Rightarrow> catmap result" where
  "make_map_loop [] catmap = Inr catmap"
| "make_map_loop (x # xs) catmap =
     bind_r (getitem (c_group x) ''group'') (\<lambda>g.
     bind_r (getitem (g_name g) ''name'') (\<lambda>n.
     make_map_loop xs (catmap(str_int (c_id x) \<mapsto> n))))"

text \<open>\<open>CategoryQuerySchema.make_map\<close>; \<open>data\<close> is the loaded query dictionary, of which
  only the key \<open>categories\<close> is read.\<close>

definition make_map :: "category_d list option \<Rightarrow> catmap result" where
  "make_map data = bind_r (getitem data ''categories'') (\<lambda>cs. make_map_loop cs Map.empty)"

section \<open>Decimal values\<close>

text \<open>
  A finite \<open>decimal.Decimal\<close>: sign, coefficient and exponent (the value is
  \<open>\<plusminus> coefficient * 10 ^ exponent\<close>). Python keeps the coefficient as its digit string
  without leading zeros, which is \<open>str_nat\<close> of the number. The non-finite values
  (NaN, Infinity) never reach the mapper: the \<open>Decimal\<close> fields of the schemas reject
  them.
\<close>

datatype decimal = Decimal (d_sign: bool) (d_int: nat) (d_exp: int)

definition is_digit :: "char \<Rightarrow> bool" where
  "is_digit c = (c \<in> set ''0123456789'')"

definition digit_val :: "char \<Rightarrow> nat" where
  "digit_val c = of_char c - 48"

text \<open>\<open>int(s)\<close> for a string \<open>s\<close> of decimal digits.\<close>

definition nat_of_digits :: "string \<Rightarrow> nat" where
  "nat_of_digits s = foldl (\<lambda>a c. 10 * a + digit_val c) 0 s"

definition is_space :: "char \<Rightarrow> bool" where
  "is_space c = (c \<in> set [CHR '' '', CHR 0x09, CHR 0x0A, CHR 0x0B, CHR 0x0C, CHR 0x0D,
                            CHR 0x1C, CHR 0x1D, CHR 0x1E, CHR 0x1F])"

text \<open>\<open>s.strip()\<close>\<close>

definition strip :: "string \<Rightarrow> string" where
  "strip s = rev (dropWhile is_space (rev (dropWhile is_space s)))"

text \<open>The exponent part of a numeric string, \<open>(E[-+]?\d+)?\<close> up to the end of the
  string: \<open>None\<close> when the rest of the string is not of this form.\<close>

definition parse_exponent :: "string \<Rightarrow> int option" where
  "parse_exponent r =
     (case r of
        [] \<Rightarrow> Some 0
      | c # r' \<Rightarrow>
          if c = CHR ''E'' \<or> c = CHR ''e'' then
            (let (neg, ds) = (case r' of
                                [] \<Rightarrow> (False, [])
                              | s # r'' \<Rightarrow> if s = CHR ''-'' then (True, r'')
                                            else if s = CHR ''+'' then (False, r'')
                                            else (False, r'))
             in if ds \<noteq> [] \<and> list_all is_digit ds
                then Some (if neg then - int (nat_of_digits ds) else int (nat_of_digits ds))
                else None)
          else None)"

text \<open>
  \<open>decimal.Decimal(s)\<close> for a string, on the finite numbers: surrounding white space and
  underscores are dropped, then the text must read
  \<open>[-+]? digits* (. digits*)? (E [-+]? digits+)?\<close> with a digit at the start or right after
  the point. \<open>None\<close> stands for every input the field rejects (malformed text, and the
  special values).
\<close>

definition parse_decimal :: "string \<Rightarrow> decimal option" where
  "parse_decimal s =
     (let s0 = filter (\<lambda>c. c \<noteq> CHR ''_'') (strip s);
          (sgn, r1) = (case s0 of
                         [] \<Rightarrow> (False, [])
                       | c # r \<Rightarrow> if c = CHR ''-'' then (True, r)
                                  else if c = CHR ''+'' then (False, r)
                                  else (False, s0));
          intpart = takeWhile is_digit r1;
          r2 = dropWhile is_digit r1;
          (fracpart, r3) = (case r2 of
                              [] \<Rightarrow> ([], [])
                            | c # r \<Rightarrow> if c = CHR ''.''
                                       then (takeWhile is_digit r, dropWhile is_digit r)
                                       else ([], r2))
      in if intpart = [] \<and> fracpart = [] then None
         else (case parse_exponent r3 of
                 None \<Rightarrow> None
               | Some e \<Rightarrow>
                   Some (Decimal sgn (nat_of_digits (intpart @ fracpart))
                                 (e - int (length fracpart)))))"

text \<open>\<open>"%+d" % n\<close>\<close>

definition format_signed :: "int \<Rightarrow> string" where
  "format_signed n = (if n < 0 then CHR ''-'' # str_nat (nat (- n)) else CHR ''+'' # str_nat (nat n))"

text \<open>\<open>Decimal.__str__\<close>: plain notation when the exponent is at most 0 and the number has
  more than \<open>-6\<close> digits left of the point, scientific notation otherwise.\<close>

definition str_decimal :: "decimal \<Rightarrow> string" where
  "str_decimal d =
     (let sign = (if d_sign d then ''-'' else '''');
          digits = str_nat (d_int d);
          leftdigits = d_exp d + int (length digits);
          dotplace = (if d_exp d \<le> 0 \<and> leftdigits > - 6 then leftdigits else 1);
          intpart = (if dotplace \<le> 0 then ''0''
                     else if dotplace \<ge> int (length digits)
                       then digits @ replicate (nat (dotplace - int (length digits))) CHR ''0''
                     else take (nat dotplace) digits);
          fracpart = (if dotplace \<le> 0 then ''.'' @ replicate (nat (- dotplace)) CHR ''0'' @ digits
                      else if dotplace \<ge> int (length digits) then ''''
                      else ''.'' @ drop (nat dotplace) digits);
          exp = (if leftdigits = dotplace then ''''
                 else ''E'' @ format_signed (leftdigits - dotplace))
      in sign @ intpart @ fracpart @ exp)"

section \<open>Dates and times\<close>

text \<open>
  A \<open>datetime.datetime\<close>: the civil fields and the UTC offset of its fixed-offset
  \<open>tzinfo\<close> in seconds (\<open>None\<close> for a naive value). The calendar arithmetic below is
  that of Python's \<open>datetime\<close> module (\<open>_ymd2ord\<close>, \<open>_ord2ymd\<close>, addition of a
  \<open>timedelta\<close>), where day 1 is 0001-01-01.
\<close>

record pydatetime =
  dt_year :: int
  dt_month :: int
  dt_day :: int
  dt_hour :: int
  dt_minute :: int
  dt_second :: int
  dt_microsecond :: int
  dt_utcoffset :: "int option"

definition MAXORDINAL :: int where
  "MAXORDINAL = 3652059"

definition DAYS_IN_MONTH :: "int list" where
  "DAYS_IN_MONTH = [- 1, 31, 28, 31, 30, 31, 30, 31, 31, 30, 31, 30, 31]"

definition DAYS_BEFORE_MONTH :: "int list" where
  "DAYS_BEFORE_MONTH = [- 1, 0, 31, 59, 90, 120, 151, 181, 212, 243, 273, 304, 334]"

definition is_leap :: "int \<Rightarrow> bool" where
  "is_leap year = (year mod 4 = 0 \<and> (year mod 100 \<noteq> 0 \<or> year mod 400 = 0))"

definition days_before_year :: "int \<Rightarrow> int" where
  "days_before_year year = (let y = year - 1 in y * 365 + y div 4 - y div 100 + y div 400)"

definition days_before_month :: "int \<Rightarrow> int \<Rightarrow> int" where
  "days_before_month year month =
     DAYS_BEFORE_MONTH ! nat month + (if month > 2 \<and> is_leap year then 1 else 0)"

definition ymd2ord :: "int \<Rightarrow> int \<Rightarrow> int \<Rightarrow> int" where
  "ymd2ord year month day = days_before_year year + days_before_month year month + day"

definition ord2ymd :: "int \<Rightarrow> int \<times> int \<times> int" where
  "ord2ymd ordinal =
     (let n0 = ordinal - 1;
          n400 = n0 div 146097; n1 = n0 mod 146097;
          n100 = n1 div 36524; n2 = n1 mod 36524;
          n4 = n2 div 1461; n3 = n2 mod 1461;
          n1y = n3 div 365; n = n3 mod 365;
          year = n400 * 400 + 1 + n100 * 100 + n4 * 4 + n1y
      in if n1y = 4 \<or> n100 = 4 then (year - 1, 12, 31)
         else
           (let leapyear = (n1y = 3 \<and> (n4 \<noteq> 24 \<or> n100 = 3));
                month = (n + 50) div 32;
                preceding = DAYS_BEFORE_MONTH ! nat month + (if month > 2 \<and> leapyear then 1 else 0)
            in if preceding > n
               then (let month' = month - 1;
                         preceding' = preceding -
                           (DAYS_IN_MONTH ! nat month' + (if month' = 2 \<and> leapyear then 1 else 0))
                     in (year, month', n - preceding' + 1))
               else (year, month, n - preceding + 1)))"

text \<open>\<open>dt + timedelta(seconds=secs)\<close>: \<open>OverflowError\<close> when the day leaves
  \<open>1 .. MAXORDINAL\<close>.\<close>

definition datetime_add_seconds :: "pydatetime \<Rightarrow> int \<Rightarrow> pydatetime result" where
  "datetime_add_seconds dt secs =
     (let total = ymd2ord (dt_year dt) (dt_month dt) (dt_day dt) * 86400
                  + dt_hour dt * 3600 + dt_minute dt * 60 + dt_second dt + secs;
          days = total div 86400;
          s = total mod 86400;
          hour = s div 3600; rem = s mod 3600
      in if 0 < days \<and> days \<le> MAXORDINAL
         then (case ord2ymd days of (y, m, d) \<Rightarrow>
                 Inr (dt\<lparr>dt_year := y, dt_month := m, dt_day := d,
                         dt_hour := hour, dt_minute := rem div 60, dt_second := rem mod 60\<rparr>))
         else Inl OverflowError)"

text \<open>
  A time zone of the zone database, as far as conversion from UTC needs it: the UTC offset
  in seconds in force at a UTC instant, the instant given in seconds counted from the
  start of day 0 (ordinal times 86400 plus the second of the day). The table of
  \<open>America/New_York\<close> is data of the platform and is a parameter here.
\<close>

type_synonym tzinfo = "int \<Rightarrow> int"

definition utc_seconds :: "pydatetime \<Rightarrow> int" where
  "utc_seconds u = ymd2ord (dt_year u) (dt_month u) (dt_day u) * 86400
                   + dt_hour u * 3600 + dt_minute u * 60 + dt_second u"

text \<open>\<open>dt.astimezone(tz)\<close> for a zone \<open>tz\<close> of the zone database: the value is brought to
  UTC by subtracting its own offset, then \<open>tz.fromutc\<close> adds the zone's offset at that
  instant. A naive value is taken to be in the system's local time, whose offset
  \<open>sys_offset\<close> is a parameter.\<close>

definition astimezone :: "(pydatetime \<Rightarrow> int) \<Rightarrow> tzinfo \<Rightarrow> pydatetime \<Rightarrow> pydatetime result" where
  "astimezone sys_offset tz dt =
     (let myoffset = (case dt_utcoffset dt of None \<Rightarrow> sys_offset dt | Some off \<Rightarrow> off)
      in bind_r (datetime_add_seconds dt (- myoffset)) (\<lambda>utc.
           let off = tz (utc_seconds utc)
           in bind_r (datetime_add_seconds utc off) (\<lambda>loc.
                Inr (loc\<lparr>dt_utcoffset := Some off\<rparr>))))"

text \<open>\<open>"%0wd" % n\<close> for a non-negative \<open>n\<close>.\<close>

definition zpad :: "nat \<Rightarrow> int \<Rightarrow> string" where
  "zpad w n = replicate (w - length (str_nat (nat n))) CHR ''0'' @ str_nat (nat n)"

text \<open>\<open>dt.date().isoformat()\<close>\<close>

definition date_isoformat :: "int \<times> int \<times> int \<Rightarrow> string" where
  "date_isoformat ymd = (case ymd of (y, m, d) \<Rightarrow> zpad 4 y @ ''-'' @ zpad 2 m @ ''-'' @ zpad 2 d)"

definition date_of :: "pydatetime \<Rightarrow> int \<times> int \<times> int" where
  "date_of dt = (dt_year dt, dt_month dt, dt_day dt)"

definition format_offset :: "int option \<Rightarrow> string" where
  "format_offset off =
     (case off of
        None \<Rightarrow> ''''
      | Some o1 \<Rightarrow>
          (let sign = (if o1 < 0 then ''-'' else ''+'');
               a = \<bar>o1\<bar>;
               hh = a div 3600; mm = (a mod 3600) div 60; ss = a mod 60
           in sign @ zpad 2 hh @ '':'' @ zpad 2 mm @ (if ss \<noteq> 0 then '':'' @ zpad 2 ss else '''')))"

text \<open>\<open>dt.isoformat()\<close>\<close>

definition datetime_isoformat :: "pydatetime \<Rightarrow> string" where
  "datetime_isoformat dt =
     date_isoformat (date_of dt) @ ''T'' @
     zpad 2 (dt_hour dt) @ '':'' @ zpad 2 (dt_minute dt) @ '':'' @ zpad 2 (dt_second dt) @
     (if dt_microsecond dt \<noteq> 0 then ''.'' @ zpad 6 (dt_microsecond dt) else '''') @
     format_offset (dt_utcoffset dt)"

section \<open>Response dictionaries and row objects\<close>

text \<open>
  The loaded dictionaries of the remaining schemas. \<open>TransactionSchema\<close> nests the
  second \<open>CategorySchema\<close> of the module, which has no \<open>group\<close>; \<open>notes\<close> is the one
  field declared \<open>allow_none\<close>, so when present it may hold \<open>None\<close>.
\<close>

datatype account_d = AccountD
  (a_id: int)
  (a_displayName: "string option")
  (a_currentBalance: "decimal option")
  (a_holdingsCount: "int option")
  (a_updatedAt: "pydatetime option")

datatype security_d = SecurityD
  (s_id: int)
  (s_name: "string option")
  (s_ticker: "string option")
  (s_currentPrice: "decimal option")

datatype aggregate_holding_d = AggregateHoldingD
  (ah_id: int)
  (ah_quantity: "decimal option")
  (ah_basis: "decimal option")
  (ah_totalValue: "decimal option")
  (ah_security: "security_d option")

datatype edge_d = EdgeD (e_node: "aggregate_holding_d option")

datatype connection_d = ConnectionD (cn_edges: "edge_d list option")

datatype portfolio_d = PortfolioD (p_aggregateHoldings: "connection_d option")

datatype merchant_d = MerchantD (m_id: int) (m_name: "string option")

datatype tx_category_d = TxCategoryD (tc_id: int) (tc_name: "string option")

datatype transaction_d = TransactionD
  (t_id: int)
  (t_amount: "decimal option")
  (t_date: "string option")
  (t_notes: "string option option")
  (t_merchant: "merchant_d option")
  (t_account: "account_d option")
  (t_category: "tx_category_d option")

datatype transaction_list_d = TransactionListD (tl_results: "transaction_d list option")

text \<open>
  What an RPC call returns: a response dictionary. Each schema of the program reads one
  top-level key and ignores the others (\<open>unknown = EXCLUDE\<close>), so a response is given by
  the four keys that are read at all.
\<close>

record response =
  r_categories :: "category_d list option"
  r_allTransactions :: "transaction_list_d option"
  r_accounts :: "account_d list option"
  r_portfolio :: "portfolio_d option"

subsection \<open>Holding\<close>

record Holding =
  h_account :: "string option"
  h_ticker :: string
  h_shares :: string
  h_price :: string
  h_cost :: string

definition Holding_init :: "edge_d \<Rightarrow> Holding result" where
  "Holding_init row =
     bind_r (getitem (e_node row) ''node'') (\<lambda>node.
     bind_r (getitem (ah_security node) ''security'') (\<lambda>sec.
     bind_r (getitem (s_ticker sec) ''ticker'') (\<lambda>ticker.
     bind_r (getitem (ah_quantity node) ''quantity'') (\<lambda>quantity.
     bind_r (getitem (ah_security node) ''security'') (\<lambda>sec'.
     bind_r (getitem (s_currentPrice sec') ''currentPrice'') (\<lambda>price.
     bind_r (getitem (ah_basis node) ''basis'') (\<lambda>basis.
     Inr \<lparr>h_account = None, h_ticker = ticker, h_shares = str_decimal quantity,
          h_price = str_decimal price, h_cost = str_decimal basis\<rparr>)))))))"

text \<open>\<open>HoldingsQuerySchema.load\<close>: the \<open>post_load\<close> hook \<open>make_csv_rows\<close> on the loaded
  dictionary.\<close>

definition HoldingsQuerySchema_load :: "response \<Rightarrow> Holding list result" where
  "HoldingsQuerySchema_load data =
     bind_r (getitem (r_portfolio data) ''portfolio'') (\<lambda>p.
     bind_r (getitem (p_aggregateHoldings p) ''aggregateHoldings'') (\<lambda>c.
     bind_r (getitem (cn_edges c) ''edges'') (\<lambda>es.
     list_comprehension Holding_init es)))"

subsection \<open>Transaction\<close>

record Transaction =
  tx_date :: string
  tx_merchant :: string
  tx_category :: string
  tx_group :: string
  tx_account :: string
  tx_notes :: "string option"
  tx_amount :: decimal

text \<open>\<open>catmap[key]\<close>\<close>

definition catmap_getitem :: "catmap \<Rightarrow> string \<Rightarrow> string result" where
  "catmap_getitem catmap key = (case catmap key of None \<Rightarrow> Inl (KeyError key) | Some v \<Rightarrow> Inr v)"

definition Transaction_init :: "transaction_d \<Rightarrow> catmap \<Rightarrow> Transaction result" where
  "Transaction_init row catmap =
     bind_r (getitem (t_date row) ''date'') (\<lambda>date.
     bind_r (getitem (t_merchant row) ''merchant'') (\<lambda>merchant.
     bind_r (getitem (m_name merchant) ''name'') (\<lambda>merchant_name.
     bind_r (getitem (t_category row) ''category'') (\<lambda>category.
     bind_r (getitem (tc_name category) ''name'') (\<lambda>category_name.
     bind_r (getitem (t_category row) ''category'') (\<lambda>category'.
     bind_r (catmap_getitem catmap (str_int (tc_id category'))) (\<lambda>group.
     bind_r (getitem (t_account row) ''account'') (\<lambda>account.
     bind_r (getitem (a_displayName account) ''displayName'') (\<lambda>account_name.
     bind_r (getitem (t_notes row) ''notes'') (\<lambda>notes.
     bind_r (getitem (t_amount row) ''amount'') (\<lambda>amount.
     Inr \<lparr>tx_date = date, tx_merchant = merchant_name, tx_category = category_name,
          tx_group = group, tx_account = account_name, tx_notes = notes,
          tx_amount = amount\<rparr>)))))))))))"

text \<open>\<open>TransactionsQuerySchema.load\<close> inside the context that holds \<open>catmap\<close>: the
  \<open>post_load\<close> hook \<open>make_csv_rows\<close>.\<close>

definition TransactionsQuerySchema_load :: "catmap \<Rightarrow> response \<Rightarrow> Transaction list result" where
  "TransactionsQuerySchema_load catmap data =
     bind_r (getitem (r_allTransactions data) ''allTransactions'') (\<lambda>tl.
     bind_r (getitem (tl_results tl) ''results'') (\<lambda>rs.
     list_comprehension (\<lambda>row. Transaction_init row catmap) rs))"

text \<open>\<open>CategoryQuerySchema.load\<close>\<close>

definition CategoryQuerySchema_load :: "response \<Rightarrow> catmap result" where
  "CategoryQuerySchema_load data = make_map (r_categories data)"

subsection \<open>Account\<close>

record Account =
  acc_id :: int
  acc_account :: string
  acc_balance :: decimal
  acc_holdingsCount :: int
  acc_datetime :: string
  acc_date_eastern :: string

text \<open>\<open>Account.__init__\<close>; \<open>ny\<close> is the zone \<open>America/New_York\<close>.\<close>

definition Account_init :: "(pydatetime \<Rightarrow> int) \<Rightarrow> tzinfo \<Rightarrow> account_d \<Rightarrow> Account result" where
  "Account_init sys_offset ny row =
     bind_r (getitem (a_displayName row) ''displayName'') (\<lambda>name.
     bind_r (getitem (a_currentBalance row) ''currentBalance'') (\<lambda>balance.
     bind_r (getitem (a_holdingsCount row) ''holdingsCount'') (\<lambda>hc.
     bind_r (getitem (a_updatedAt row) ''updatedAt'') (\<lambda>updated.
     bind_r (getitem (a_updatedAt row) ''updatedAt'') (\<lambda>updated'.
     bind_r (astimezone sys_offset ny updated') (\<lambda>eastern.
     Inr \<lparr>acc_id = a_id row, acc_account = name, acc_balance = balance,
          acc_holdingsCount = hc, acc_datetime = datetime_isoformat updated,
          acc_date_eastern = date_isoformat (date_of eastern)\<rparr>))))))"

text \<open>\<open>AccountsQuerySchema.load\<close>\<close>

definition AccountsQuerySchema_load ::
  "(pydatetime \<Rightarrow> int) \<Rightarrow> tzinfo \<Rightarrow> response \<Rightarrow> Account list result" where
  "AccountsQuerySchema_load sys_offset ny data =
     bind_r (getitem (r_accounts data) ''accounts'') (\<lambda>accs.
     list_comprehension (Account_init sys_offset ny) accs)"

section \<open>CSV writing and report files\<close>

text \<open>The values found in the \<open>__dict__\<close> of a row object, and the text
  \<open>csv.writer\<close> writes for each (\<open>None\<close> as the empty string, anything else by \<open>str\<close>).\<close>

datatype cell = CStr string | CNone | CDecimal decimal | CInt int

definition cell_text :: "cell \<Rightarrow> string" where
  "cell_text c = (case c of CStr s \<Rightarrow> s | CNone \<Rightarrow> '''' | CDecimal d \<Rightarrow> str_decimal d
                  | CInt i \<Rightarrow> str_int i)"

definition PORTFOLIO_HEADER :: "string list" where
  "PORTFOLIO_HEADER = [''account'', ''ticker'', ''shares'', ''price'', ''cost'']"

definition TRANSACTIONS_HEADER :: "string list" where
  "TRANSACTIONS_HEADER =
     [''date'', ''merchant'', ''category'', ''group'', ''account'', ''notes'', ''amount'']"

definition BALANCES_HEADER :: "string list" where
  "BALANCES_HEADER = [''account'', ''balance'', ''date_eastern'', ''datetime'']"

definition opt_cell :: "string option \<Rightarrow> cell" where
  "opt_cell v = (case v of None \<Rightarrow> CNone | Some s \<Rightarrow> CStr s)"

text \<open>The \<open>__dict__\<close> of the three row classes, in attribute order.\<close>

definition Holding_dict :: "Holding \<Rightarrow> (string \<times> cell) list" where
  "Holding_dict h =
     [(''account'', opt_cell (h_account h)), (''ticker'', CStr (h_ticker h)),
      (''shares'', CStr (h_shares h)), (''price'', CStr (h_price h)),
      (''cost'', CStr (h_cost h))]"

definition Transaction_dict :: "Transaction \<Rightarrow> (string \<times> cell) list" where
  "Transaction_dict t =
     [(''date'', CStr (tx_date t)), (''merchant'', CStr (tx_merchant t)),
      (''category'', CStr (tx_category t)), (''group'', CStr (tx_group t)),
      (''account'', CStr (tx_account t)), (''notes'', opt_cell (tx_notes t)),
      (''amount'', CDecimal (tx_amount t))]"

definition Account_dict :: "Account \<Rightarrow> (string \<times> cell) list" where
  "Account_dict a =
     [(''id'', CInt (acc_id a)), (''account'', CStr (acc_account a)),
      (''balance'', CDecimal (acc_balance a)), (''holdingsCount'', CInt (acc_holdingsCount a)),
      (''datetime'', CStr (acc_datetime a)), (''date_eastern'', CStr (acc_date_eastern a))]"

text \<open>\<open>csv.writer\<close> with \<open>QUOTE_ALL\<close> and the default dialect: every field in double
  quotes, a double quote inside a field doubled, fields joined by commas, the row ended
  by CR LF.\<close>

definition quote_field :: "string \<Rightarrow> string" where
  "quote_field s = CHR 0x22 # concat (map (\<lambda>c. if c = CHR 0x22 then [c, c] else [c]) s) @ [CHR 0x22]"

fun join_fields :: "string list \<Rightarrow> string" where
  "join_fields [] = []"
| "join_fields [f] = f"
| "join_fields (f # fs) = f @ CHR '','' # join_fields fs"

definition csv_writerow :: "string list \<Rightarrow> string" where
  "csv_writerow flds = join_fields (map quote_field flds) @ [CHR 0x0D, CHR 0x0A]"

text \<open>\<open>DictWriter._dict_to_list\<close> followed by the writer's conversion of each value:
  with \<open>extrasaction = "raise"\<close> (the default) a key outside the field names is a
  \<open>ValueError\<close>; a field name the dictionary lacks gives the empty \<open>restval\<close>.\<close>

definition dict_to_list :: "string list \<Rightarrow> bool \<Rightarrow> (string \<times> cell) list \<Rightarrow> string list result" where
  "dict_to_list fieldnames ignore_extras rowdict =
     (if \<not> ignore_extras \<and> (\<exists>k \<in> set (map fst rowdict). k \<notin> set fieldnames)
      then Inl (OtherException ''ValueError: dict contains fields not in fieldnames'')
      else Inr (map (\<lambda>key. case map_of rowdict key of None \<Rightarrow> '''' | Some v \<Rightarrow> cell_text v)
                    fieldnames))"

text \<open>A write may raise part-way through a file; what was written before stays written.
  The writing functions therefore return the exception, if any, together with the text of
  the file so far.\<close>

definition DictWriter_writerow ::
  "string list \<Rightarrow> bool \<Rightarrow> (string \<times> cell) list \<Rightarrow> string \<Rightarrow> exn option \<times> string" where
  "DictWriter_writerow fieldnames ignore_extras rowdict f =
     (case dict_to_list fieldnames ignore_extras rowdict of
        Inl e \<Rightarrow> (Some e, f)
      | Inr flds \<Rightarrow> (None, f @ csv_writerow flds))"

definition DictWriter_writeheader :: "string list \<Rightarrow> bool \<Rightarrow> string \<Rightarrow> exn option \<times> string" where
  "DictWriter_writeheader fieldnames ignore_extras f =
     DictWriter_writerow fieldnames ignore_extras (map (\<lambda>k. (k, CStr k)) fieldnames) f"

text \<open>The loop \<open>for x in rows: writer.writerow(x.__dict__)\<close> on the text written so far.\<close>

fun write_rows ::
  "string list \<Rightarrow> bool \<Rightarrow> (string \<times> cell) list list \<Rightarrow> string \<Rightarrow> exn option \<times> string" where
  "write_rows fieldnames ignore_extras [] f = (None, f)"
| "write_rows fieldnames ignore_extras (r # rs) f =
     (case DictWriter_writerow fieldnames ignore_extras r f of
        (Some e, f') \<Rightarrow> (Some e, f')
      | (None, f') \<Rightarrow> write_rows fieldnames ignore_extras rs f')"

section \<open>The client, the environment and the Monarch object\<close>

text \<open>
  The underlying \<open>monarchmoney.MonarchMoney\<close> client is an external collaborator. Of an
  instance the model keeps its identity (instances are numbered in the order of their
  construction), the \<open>session_file\<close> argument of its constructor (\<open>None\<close> when the
  constructor's own default is used) and the token its headers hold (none in a new
  instance, the one obtained by its last successful login otherwise).
\<close>

record client =
  cl_id :: nat
  cl_session_file :: "string option"
  cl_token :: "string option"

datatype request =
    GetTransactionCategories
  | GetTransactions int string string
  | GetAccounts
  | GetAccountHoldings int

datatype login_args = LoginArgs
  (la_email: string)
  (la_password: string)
  (la_save_session: bool)
  (la_use_saved_session: bool)
  (la_mfa_secret_key: string)

text \<open>What happens, in order: the trace of a run.\<close>

datatype event =
    ClientCreated nat "string option"
  | LoginInvoked bool
  | ClientLogin nat login_args "string result"
  | RpcCall nat request "response result"
  | Slept int
  | FileOpened string bool

text \<open>
  The environment answers every call of the client as a function of the whole history:
  the outcome of a login (an exception, or the token now held), the outcome of an RPC call
  (an exception, or the response dictionary), and the current date.
\<close>

record env =
  login_outcome :: "event list \<Rightarrow> client \<Rightarrow> login_args \<Rightarrow> string result"
  rpc_outcome :: "event list \<Rightarrow> client \<Rightarrow> request \<Rightarrow> response result"
  today :: "event list \<Rightarrow> int \<times> int \<times> int"

record world =
  w_trace :: "event list"
  w_next_id :: nat
  w_files :: "string \<rightharpoonup> string"

definition log_event :: "event \<Rightarrow> world \<Rightarrow> world" where
  "log_event e w = w\<lparr>w_trace := w_trace w @ [e]\<rparr>"

record Monarch =
  un :: string
  pw :: string
  token :: string
  fn_tx_report :: string
  fn_balance_report :: string
  fn_balance_history_report :: string
  fn_portfolio_report :: string
  retry_delay :: int
  session_file :: "string option"
  mm :: client

definition RECORD_LIMIT_TX :: int where
  "RECORD_LIMIT_TX = 10000"

text \<open>\<open>Monarch._init_mm\<close>: a new client instance, with the session file when one is
  configured (an empty path counts as none).\<close>

definition init_mm :: "Monarch \<Rightarrow> world \<Rightarrow> Monarch \<times> world" where
  "init_mm self w =
     (let arg = (case session_file self of
                   None \<Rightarrow> None
                 | Some p \<Rightarrow> if p \<noteq> [] then Some p else None);
          c = \<lparr>cl_id = w_next_id w, cl_session_file = arg, cl_token = None\<rparr>
      in (self\<lparr>mm := c\<rparr>,
          log_event (ClientCreated (cl_id c) arg) (w\<lparr>w_next_id := Suc (w_next_id w)\<rparr>)))"

text \<open>\<open>Monarch.login(use_saved_session)\<close>\<close>

definition login :: "env \<Rightarrow> bool \<Rightarrow> Monarch \<Rightarrow> world \<Rightarrow> unit result \<times> Monarch \<times> world" where
  "login ev use_saved_session self w =
     (let w0 = log_event (LoginInvoked use_saved_session) w;
          (self1, w1) = (if \<not> use_saved_session then init_mm self w0 else (self, w0));
          args = LoginArgs (un self1) (pw self1) True use_saved_session (token self1);
          outcome = login_outcome ev (w_trace w1) (mm self1) args;
          w2 = log_event (ClientLogin (cl_id (mm self1)) args outcome) w1
      in case outcome of
           Inl e \<Rightarrow> (Inl e, self1, w2)
         | Inr tok \<Rightarrow> (Inr (), self1\<lparr>mm := (mm self1)\<lparr>cl_token := Some tok\<rparr>\<rparr>, w2))"

text \<open>A call of the client, \<open>await self.mm.<operation>(...)\<close>.\<close>

definition mm_call :: "env \<Rightarrow> request \<Rightarrow> Monarch \<Rightarrow> world \<Rightarrow> response result \<times> world" where
  "mm_call ev req self w =
     (let outcome = rpc_outcome ev (w_trace w) (mm self) req
      in (outcome, log_event (RpcCall (cl_id (mm self)) req outcome) w))"

subsection \<open>The retry controller\<close>

text \<open>
  The decorator \<open>tenacity.retry\<close> with
  \<open>retry = retry_if_exception_type(TransportServerError) & retry_if_exception(is_exception_401)\<close>,
  \<open>before_sleep = login_before_sleep\<close>, \<open>stop = stop_after_attempt(2)\<close>,
  \<open>wait = wait_from_instance\<close> and \<open>reraise = True\<close>.
\<close>

text \<open>\<open>is_exception_401\<close>: the \<open>code\<close> attribute is compared, never the message. The
  conjunction of the two retry predicates evaluates it on a \<open>TransportServerError\<close> only.\<close>

definition is_exception_401 :: "exn \<Rightarrow> bool" where
  "is_exception_401 exception =
     (case exception of TransportServerError msg code \<Rightarrow> code = Some 401 | _ \<Rightarrow> False)"

definition is_TransportServerError :: "exn \<Rightarrow> bool" where
  "is_TransportServerError e = (case e of TransportServerError msg code \<Rightarrow> True | _ \<Rightarrow> False)"

definition retry_predicate :: "exn \<Rightarrow> bool" where
  "retry_predicate e = (is_TransportServerError e \<and> is_exception_401 e)"

definition stop_after_attempt :: "nat \<Rightarrow> nat \<Rightarrow> bool" where
  "stop_after_attempt max_attempt_number attempt_number = (attempt_number \<ge> max_attempt_number)"

definition wait_from_instance :: "Monarch \<Rightarrow> int" where
  "wait_from_instance instance = retry_delay instance"

definition login_before_sleep :: "env \<Rightarrow> Monarch \<Rightarrow> world \<Rightarrow> unit result \<times> Monarch \<times> world" where
  "login_before_sleep ev instance w = login ev False instance w"

text \<open>
  The loop of tenacity's \<open>AsyncRetrying\<close> around a wrapped method \<open>fn\<close>, from attempt
  number \<open>attempt_number\<close> on. A result is returned. An exception the retry predicate
  rejects is raised as it is. Otherwise the wait is computed; when the stop condition
  holds the last exception is raised again (\<open>reraise\<close>); when not, \<open>before_sleep\<close> runs
  (an exception of it ends the call), the loop sleeps and attempts again.
\<close>

function retrying ::
  "env \<Rightarrow> (Monarch \<Rightarrow> world \<Rightarrow> response result \<times> world) \<Rightarrow> nat \<Rightarrow> Monarch \<Rightarrow> world
     \<Rightarrow> response result \<times> Monarch \<times> world" where
  "retrying ev fn attempt_number self w =
     (case fn self w of
        (Inr v, w1) \<Rightarrow> (Inr v, self, w1)
      | (Inl e, w1) \<Rightarrow>
          if \<not> retry_predicate e then (Inl e, self, w1)
          else
            let sleep = wait_from_instance self
            in if stop_after_attempt 2 attempt_number then (Inl e, self, w1)
               else (case login_before_sleep ev self w1 of
                       (Inl e', self2, w2) \<Rightarrow> (Inl e', self2, w2)
                     | (Inr u, self2, w2) \<Rightarrow>
                         retrying ev fn (Suc attempt_number) self2 (log_event (Slept sleep) w2)))"
  by pat_completeness auto
termination
  by (relation "measure (\<lambda>(ev, fn, attempt_number, self, w). 2 - attempt_number)")
     (auto simp: stop_after_attempt_def)

declare retrying.simps [simp del]

definition get_categories :: "env \<Rightarrow> Monarch \<Rightarrow> world \<Rightarrow> response result \<times> Monarch \<times> world" where
  "get_categories ev = retrying ev (mm_call ev GetTransactionCategories) 1"

definition get_transactions :: "env \<Rightarrow> Monarch \<Rightarrow> world \<Rightarrow> response result \<times> Monarch \<times> world" where
  "get_transactions ev =
     retrying ev
       (\<lambda>self w. mm_call ev
          (GetTransactions RECORD_LIMIT_TX
             (date_isoformat (fst (today ev (w_trace w)), 1, 1))
             (date_isoformat (today ev (w_trace w)))) self w) 1"

definition get_accounts :: "env \<Rightarrow> Monarch \<Rightarrow> world \<Rightarrow> response result \<times> Monarch \<times> world" where
  "get_accounts ev = retrying ev (mm_call ev GetAccounts) 1"

definition get_holdings :: "env \<Rightarrow> int \<Rightarrow> Monarch \<Rightarrow> world \<Rightarrow> response result \<times> Monarch \<times> world" where
  "get_holdings ev account_id = retrying ev (mm_call ev (GetAccountHoldings account_id)) 1"

subsection \<open>Construction\<close>

text \<open>\<open>Monarch.__init__\<close>; the three assertions guard the credentials.\<close>

definition Monarch_init ::
  "string \<Rightarrow> string \<Rightarrow> string \<Rightarrow> string option \<Rightarrow> string \<Rightarrow> string \<Rightarrow> string \<Rightarrow> string \<Rightarrow> int
     \<Rightarrow> world \<Rightarrow> (Monarch \<times> world) result" where
  "Monarch_init un0 pw0 token0 session_file0 rb rbh rt rp retry_delay0 w =
     (if length un0 = 0 \<or> length token0 = 0 \<or> length pw0 = 0
      then Inl (OtherException ''AssertionError'')
      else Inr (init_mm
             \<lparr>un = un0, pw = pw0, token = token0, fn_tx_report = rt, fn_balance_report = rb,
              fn_balance_history_report = rbh, fn_portfolio_report = rp,
              retry_delay = retry_delay0, session_file = session_file0,
              mm = \<lparr>cl_id = 0, cl_session_file = None, cl_token = None\<rparr>\<rparr> w))"

subsection \<open>Report files\<close>

text \<open>\<open>open(path, mode="w")\<close> starts from an empty file, \<open>open(path, mode="a")\<close> from
  the present content (empty when the file does not exist). Leaving the \<open>with\<close> block
  stores what was written, also when the block raised.\<close>

definition open_w :: "string \<Rightarrow> world \<Rightarrow> string \<times> world" where
  "open_w path w = ('''', log_event (FileOpened path False) (w\<lparr>w_files := (w_files w)(path \<mapsto> '''')\<rparr>))"

definition open_a :: "string \<Rightarrow> world \<Rightarrow> string \<times> world" where
  "open_a path w =
     (let f = (case w_files w path of None \<Rightarrow> '''' | Some c \<Rightarrow> c)
      in (f, log_event (FileOpened path True) (w\<lparr>w_files := (w_files w)(path \<mapsto> f)\<rparr>)))"

definition close_file :: "string \<Rightarrow> exn option \<times> string \<Rightarrow> world \<Rightarrow> unit result \<times> world" where
  "close_file path written w =
     (case written of
        (err, f) \<Rightarrow> ((case err of None \<Rightarrow> Inr () | Some e \<Rightarrow> Inl e),
                     w\<lparr>w_files := (w_files w)(path \<mapsto> f)\<rparr>))"

text \<open>The body shared by the writers: an optional header, then one row per object.\<close>

definition write_table ::
  "string list \<Rightarrow> bool \<Rightarrow> bool \<Rightarrow> (string \<times> cell) list list \<Rightarrow> string \<Rightarrow> exn option \<times> string" where
  "write_table fieldnames ignore_extras with_header rows f =
     (case (if with_header then DictWriter_writeheader fieldnames ignore_extras f else (None, f)) of
        (Some e, f1) \<Rightarrow> (Some e, f1)
      | (None, f1) \<Rightarrow> write_rows fieldnames ignore_extras rows f1)"

definition write_transactions :: "Monarch \<Rightarrow> Transaction list \<Rightarrow> world \<Rightarrow> unit result \<times> world" where
  "write_transactions self transactions w =
     (case open_w (fn_tx_report self) w of
        (f, w1) \<Rightarrow>
          close_file (fn_tx_report self)
            (write_table TRANSACTIONS_HEADER False True (map Transaction_dict transactions) f) w1)"

definition write_balances :: "Monarch \<Rightarrow> Account list \<Rightarrow> world \<Rightarrow> unit result \<times> world" where
  "write_balances self accounts w =
     (case open_w (fn_balance_report self) w of
        (f, w1) \<Rightarrow>
          close_file (fn_balance_report self)
            (write_table BALANCES_HEADER True True (map Account_dict accounts) f) w1)"

text \<open>\<open>write_balances_history\<close>: the header is written when \<open>f.tell() == 0\<close>, that is when
  the file opened for appending holds nothing.\<close>

definition write_balances_history :: "Monarch \<Rightarrow> Account list \<Rightarrow> world \<Rightarrow> unit result \<times> world" where
  "write_balances_history self accounts w =
     (case open_a (fn_balance_history_report self) w of
        (f, w1) \<Rightarrow>
          close_file (fn_balance_history_report self)
            (write_table BALANCES_HEADER True (length f = 0) (map Account_dict accounts) f) w1)"

definition write_portfolio :: "Monarch \<Rightarrow> Holding list \<Rightarrow> world \<Rightarrow> unit result \<times> world" where
  "write_portfolio self holdings w =
     (case open_w (fn_portfolio_report self) w of
        (f, w1) \<Rightarrow>
          close_file (fn_portfolio_report self)
            (write_table PORTFOLIO_HEADER False True (map Holding_dict holdings) f) w1)"

subsection \<open>Reports\<close>

definition report_transactions :: "env \<Rightarrow> Monarch \<Rightarrow> world \<Rightarrow> unit result \<times> Monarch \<times> world" where
  "report_transactions ev self w =
     (case get_categories ev self w of
        (Inl e, self1, w1) \<Rightarrow> (Inl e, self1, w1)
      | (Inr cats, self1, w1) \<Rightarrow>
          (case CategoryQuerySchema_load cats of
             Inl e \<Rightarrow> (Inl e, self1, w1)
           | Inr catmap \<Rightarrow>
               (case get_transactions ev self1 w1 of
                  (Inl e, self2, w2) \<Rightarrow> (Inl e, self2, w2)
                | (Inr txs, self2, w2) \<Rightarrow>
                    (case TransactionsQuerySchema_load catmap txs of
                       Inl e \<Rightarrow> (Inl e, self2, w2)
                     | Inr loaded_data \<Rightarrow>
                         (case write_transactions self2 loaded_data w2 of
                            (r, w3) \<Rightarrow> (r, self2, w3))))))"

definition report_balances ::
  "env \<Rightarrow> (pydatetime \<Rightarrow> int) \<Rightarrow> tzinfo \<Rightarrow> Monarch \<Rightarrow> world
     \<Rightarrow> Account list result \<times> Monarch \<times> world" where
  "report_balances ev sys_offset ny self w =
     (case get_accounts ev self w of
        (Inl e, self1, w1) \<Rightarrow> (Inl e, self1, w1)
      | (Inr accounts, self1, w1) \<Rightarrow>
          (case AccountsQuerySchema_load sys_offset ny accounts of
             Inl e \<Rightarrow> (Inl e, self1, w1)
           | Inr loaded_data \<Rightarrow>
               (case write_balances self1 loaded_data w1 of
                  (Inl e, w2) \<Rightarrow> (Inl e, self1, w2)
                | (Inr u, w2) \<Rightarrow>
                    (case write_balances_history self1 loaded_data w2 of
                       (Inl e, w3) \<Rightarrow> (Inl e, self1, w3)
                     | (Inr u', w3) \<Rightarrow> (Inr loaded_data, self1, w3)))))"

text \<open>The inner loop \<open>for x in holdings_query: x.account = account.account\<close>.\<close>

definition backfill_account :: "Account \<Rightarrow> Holding list \<Rightarrow> Holding list" where
  "backfill_account account holdings_query =
     map (\<lambda>x. x\<lparr>h_account := Some (acc_account account)\<rparr>) holdings_query"

text \<open>The loop of \<open>report_portfolio\<close> over the accounts, with the list \<open>all_holdings\<close>
  collected so far.\<close>

fun portfolio_loop ::
  "env \<Rightarrow> Account list \<Rightarrow> Holding list \<Rightarrow> Monarch \<Rightarrow> world
     \<Rightarrow> Holding list result \<times> Monarch \<times> world" where
  "portfolio_loop ev [] all_holdings self w = (Inr all_holdings, self, w)"
| "portfolio_loop ev (account # rest) all_holdings self w =
     (if acc_holdingsCount account > 0 then
        (case get_holdings ev (acc_id account) self w of
           (Inl e, self1, w1) \<Rightarrow> (Inl e, self1, w1)
         | (Inr holdings, self1, w1) \<Rightarrow>
             (case HoldingsQuerySchema_load holdings of
                Inl e \<Rightarrow> (Inl e, self1, w1)
              | Inr holdings_query \<Rightarrow>
                  portfolio_loop ev rest
                    (all_holdings @ backfill_account account holdings_query) self1 w1))
      else portfolio_loop ev rest all_holdings self w)"

definition report_portfolio ::
  "env \<Rightarrow> Account list \<Rightarrow> Monarch \<Rightarrow> world \<Rightarrow> unit result \<times> Monarch \<times> world" where
  "report_portfolio ev accounts_query self w =
     (case portfolio_loop ev accounts_query [] self w of
        (Inl e, self1, w1) \<Rightarrow> (Inl e, self1, w1)
      | (Inr all_holdings, self1, w1) \<Rightarrow>
          (case write_portfolio self1 all_holdings w1 of
             (r, w2) \<Rightarrow> (r, self1, w2)))"

section \<open>Notions used to state the properties\<close>

text \<open>The group display name a category entry carries, if it carries one.\<close>

definition group_name :: "category_d \<Rightarrow> string option" where
  "group_name c = (case c_group c of None \<Rightarrow> None | Some g \<Rightarrow> g_name g)"

text \<open>The key under which the lookup is consulted for a transaction: its stringified
  category identifier.\<close>

definition category_key :: "transaction_d \<Rightarrow> string option" where
  "category_key t = (case t_category t of None \<Rightarrow> None | Some c \<Rightarrow> Some (str_int (tc_id c)))"

text \<open>A transaction entry of the expected shape: every field the mapper reads is there.\<close>

definition transaction_complete :: "transaction_d \<Rightarrow> bool" where
  "transaction_complete t =
     (t_date t \<noteq> None \<and>
      (case t_merchant t of None \<Rightarrow> False | Some m \<Rightarrow> m_name m \<noteq> None) \<and>
      (case t_category t of None \<Rightarrow> False | Some c \<Rightarrow> tc_name c \<noteq> None) \<and>
      (case t_account t of None \<Rightarrow> False | Some a \<Rightarrow> a_displayName a \<noteq> None) \<and>
      t_notes t \<noteq> None \<and> t_amount t \<noteq> None)"

text \<open>Readings of a trace: the outcomes of the RPC calls, the client instances they were
  made on, the requests, the \<open>use_saved_session\<close> flags of the invocations of
  \<open>Monarch.login\<close>, the outcomes of the logins of the client (an exception, or the token
  obtained), and the files opened, each in order.\<close>

fun rpc_outcomes :: "event list \<Rightarrow> response result list" where
  "rpc_outcomes [] = []"
| "rpc_outcomes (e # es) =
     (case e of RpcCall c r out \<Rightarrow> out # rpc_outcomes es | _ \<Rightarrow> rpc_outcomes es)"

fun rpc_clients :: "event list \<Rightarrow> nat list" where
  "rpc_clients [] = []"
| "rpc_clients (e # es) =
     (case e of RpcCall c r out \<Rightarrow> c # rpc_clients es | _ \<Rightarrow> rpc_clients es)"

fun rpc_requests :: "event list \<Rightarrow> request list" where
  "rpc_requests [] = []"
| "rpc_requests (e # es) =
     (case e of RpcCall c r out \<Rightarrow> r # rpc_requests es | _ \<Rightarrow> rpc_requests es)"

fun login_flags :: "event list \<Rightarrow> bool list" where
  "login_flags [] = []"
| "login_flags (e # es) =
     (case e of LoginInvoked b \<Rightarrow> b # login_flags es | _ \<Rightarrow> login_flags es)"

fun login_results :: "event list \<Rightarrow> string result list" where
  "login_results [] = []"
| "login_results (e # es) =
     (case e of ClientLogin c args out \<Rightarrow> out # login_results es | _ \<Rightarrow> login_results es)"

fun files_opened :: "event list \<Rightarrow> string list" where
  "files_opened [] = []"
| "files_opened (e # es) =
     (case e of FileOpened p a \<Rightarrow> p # files_opened es | _ \<Rightarrow> files_opened es)"

text \<open>The session file path a Monarch object is configured with: the argument
  \<open>_init_mm\<close> gives to the client's constructor.\<close>

definition configured_session_file :: "Monarch \<Rightarrow> string option" where
  "configured_session_file self =
     (case session_file self of None \<Rightarrow> None | Some p \<Rightarrow> if p \<noteq> [] then Some p else None)"

text \<open>The unauthorized condition: a \<open>TransportServerError\<close> whose code is 401.\<close>

definition unauthorized :: "exn \<Rightarrow> bool" where
  "unauthorized e = (case e of TransportServerError msg code \<Rightarrow> code = Some 401 | _ \<Rightarrow> False)"

text \<open>The RPC calls of a trace that succeeded, each with the response it returned.\<close>

fun successful_calls :: "event list \<Rightarrow> (request \<times> response) list" where
  "successful_calls [] = []"
| "successful_calls (e # es) =
     (case e of RpcCall c r (Inr resp) \<Rightarrow> (r, resp) # successful_calls es
              | _ \<Rightarrow> successful_calls es)"

text \<open>
  The number of records in a CSV text, as a reader counts them: the line feeds outside
  quoted fields. A double quote switches between inside and outside (a doubled quote
  inside a field switches twice).
\<close>

fun count_records :: "bool \<Rightarrow> string \<Rightarrow> nat" where
  "count_records in_quotes [] = 0"
| "count_records in_quotes (c # cs) =
     (if c = CHR 0x22 then count_records (\<not> in_quotes) cs
      else if c = CHR 0x0A \<and> \<not> in_quotes then Suc (count_records in_quotes cs)
      else count_records in_quotes cs)"

definition csv_line_count :: "string \<Rightarrow> nat" where
  "csv_line_count text = count_records False text"

text \<open>The lines of the report files: the header lines, and the line of each row object.\<close>

definition balance_line :: "Account \<Rightarrow> string" where
  "balance_line a =
     csv_writerow [acc_account a, str_decimal (acc_balance a), acc_date_eastern a, acc_datetime a]"

definition holding_line :: "Holding \<Rightarrow> string" where
  "holding_line h =
     csv_writerow [(case h_account h of None \<Rightarrow> '''' | Some n \<Rightarrow> n), h_ticker h, h_shares h,
                   h_price h, h_cost h]"

definition transaction_line :: "Transaction \<Rightarrow> string" where
  "transaction_line t =
     csv_writerow [tx_date t, tx_merchant t, tx_category t, tx_group t, tx_account t,
                   (case tx_notes t of None \<Rightarrow> '''' | Some n \<Rightarrow> n), str_decimal (tx_amount t)]"

text \<open>The holding rows a holdings response maps to (none when the mapping raises).\<close>

definition holdings_of :: "response \<Rightarrow> Holding list" where
  "holdings_of resp = (case HoldingsQuerySchema_load resp of Inl e \<Rightarrow> [] | Inr hs \<Rightarrow> hs)"

section \<open>Concrete inputs\<close>

text \<open>Inputs at which the theorems below are instantiated and the functions evaluated.\<close>

definition categories_response :: "category_d list \<Rightarrow> response" where
  "categories_response cs =
     \<lparr>r_categories = Some cs, r_allTransactions = None, r_accounts = None, r_portfolio = None\<rparr>"

definition example_categories :: "category_d list" where
  "example_categories =
     [CategoryD 171 (Some ''Mortgage'') (Some (GroupD 1 (Some ''Home''))),
      CategoryD 12 (Some ''Clothing'') (Some (GroupD 2 (Some ''Personal'')))]"

definition duplicate_categories :: "category_d list" where
  "duplicate_categories =
     [CategoryD 7 (Some ''Rent'') (Some (GroupD 1 (Some ''Home''))),
      CategoryD 7 (Some ''Rent'') (Some (GroupD 2 (Some ''Housing'')))]"

definition overwritten_categories :: "category_d list" where
  "overwritten_categories =
     [CategoryD 7 (Some ''Rent'') (Some (GroupD 1 (Some ''Home''))),
      CategoryD 12 (Some ''Clothing'') (Some (GroupD 2 (Some ''Personal''))),
      CategoryD 7 (Some ''Rent'') (Some (GroupD 3 (Some ''Housing'')))]"

definition example_account_d :: account_d where
  "example_account_d = AccountD 5 (Some ''exampleAccount'') None None None"

definition example_transactions :: "transaction_d list" where
  "example_transactions =
     [TransactionD 1 (Some (Decimal True 1250 (- 2))) (Some ''2026-01-05'') (Some None)
        (Some (MerchantD 3 (Some ''Shop''))) (Some example_account_d)
        (Some (TxCategoryD 12 (Some ''Clothing''))),
      TransactionD 2 (Some (Decimal True 100000 (- 2))) (Some ''2026-01-02'')
        (Some (Some ''rent'')) (Some (MerchantD 4 (Some ''Landlord'')))
        (Some example_account_d) (Some (TxCategoryD 171 (Some ''Mortgage'')))]"

text \<open>A transaction list whose second entry refers to a category (99) that no category
  list above contains.\<close>

definition unresolved_transactions :: "transaction_d list" where
  "unresolved_transactions =
     [TransactionD 1 (Some (Decimal True 1250 (- 2))) (Some ''2026-01-05'') (Some None)
        (Some (MerchantD 3 (Some ''Shop''))) (Some example_account_d)
        (Some (TxCategoryD 12 (Some ''Clothing''))),
      TransactionD 2 (Some (Decimal True 500 (- 2))) (Some ''2026-01-03'') (Some None)
        (Some (MerchantD 4 (Some ''Kiosk''))) (Some example_account_d)
        (Some (TxCategoryD 99 (Some ''Unknown'')))]"

definition transactions_response :: "transaction_d list \<Rightarrow> response" where
  "transactions_response rs =
     \<lparr>r_categories = None, r_allTransactions = Some (TransactionListD (Some rs)),
      r_accounts = None, r_portfolio = None\<rparr>"

definition example_catmap :: catmap where
  "example_catmap = [''171'' \<mapsto> ''Home'', ''12'' \<mapsto> ''Personal'']"

definition example_updatedAt :: pydatetime where
  "example_updatedAt =
     \<lparr>dt_year = 2026, dt_month = 1, dt_day = 12, dt_hour = 14, dt_minute = 28, dt_second = 13,
      dt_microsecond = 637497, dt_utcoffset = Some 0\<rparr>"

definition example_accounts_d :: "account_d list" where
  "example_accounts_d =
     [AccountD 101 (Some ''Checking'') (Some (Decimal False 181171 (- 2))) (Some 0)
        (Some example_updatedAt),
      AccountD 102 (Some ''Brokerage'') (Some (Decimal False 5000000 (- 2))) (Some 2)
        (Some example_updatedAt)]"

definition accounts_response :: "account_d list \<Rightarrow> response" where
  "accounts_response accs =
     \<lparr>r_categories = None, r_allTransactions = None, r_accounts = Some accs, r_portfolio = None\<rparr>"

definition example_edges :: "edge_d list" where
  "example_edges =
     [EdgeD (Some (AggregateHoldingD 1 (Some (Decimal False 1288212 (- 3)))
        (Some (Decimal False 22276 (- 1))) (Some (Decimal False 4254964 (- 2)))
        (Some (SecurityD 9 (Some ''Fund A'') (Some ''AAA'') (Some (Decimal False 3303 (- 2))))))),
      EdgeD (Some (AggregateHoldingD 2 (Some (Decimal False 10 0))
        (Some (Decimal False 1000 0)) (Some (Decimal False 1200 0))
        (Some (SecurityD 8 (Some ''Fund B'') (Some ''BBB'') (Some (Decimal False 120 0))))))]"

definition holdings_response :: "edge_d list \<Rightarrow> response" where
  "holdings_response es =
     \<lparr>r_categories = None, r_allTransactions = None, r_accounts = None,
      r_portfolio = Some (PortfolioD (Some (ConnectionD (Some es))))\<rparr>"

text \<open>
  A server in the manner of the test suite's mock: a login that may use the saved session
  finds the stale token of the session file, a login that may not obtains a fresh one;
  every RPC call made with anything but the fresh token is answered by status 401, and
  with the fresh token by the data: the given transactions, or the examples above.
\<close>

definition answer :: "transaction_d list \<Rightarrow> request \<Rightarrow> response" where
  "answer txs req =
     (case req of
        GetTransactionCategories \<Rightarrow> categories_response example_categories
      | GetTransactions limit start end \<Rightarrow> transactions_response txs
      | GetAccounts \<Rightarrow> accounts_response example_accounts_d
      | GetAccountHoldings account_id \<Rightarrow> holdings_response example_edges)"

definition mock_server :: "transaction_d list \<Rightarrow> env" where
  "mock_server txs =
     \<lparr>login_outcome = (\<lambda>tr c args. if la_use_saved_session args then Inr ''STALE''
                                       else Inr ''FAKETOKEN''),
      rpc_outcome = (\<lambda>tr c req. if cl_token c = Some ''FAKETOKEN'' then Inr (answer txs req)
                                 else Inl (TransportServerError ''KDD ERROR'' (Some 401))),
      today = (\<lambda>tr. (2026, 1, 13))\<rparr>"

text \<open>A server that answers every call with status 401, whatever the token.\<close>

definition locked_server :: env where
  "locked_server =
     \<lparr>login_outcome = (\<lambda>tr c args. Inr ''FAKETOKEN''),
      rpc_outcome = (\<lambda>tr c req. Inl (TransportServerError ''KDD ERROR'' (Some 401))),
      today = (\<lambda>tr. (2026, 1, 13))\<rparr>"

text \<open>A server that fails every call with status 500.\<close>

definition broken_server :: env where
  "broken_server =
     \<lparr>login_outcome = (\<lambda>tr c args. Inr ''FAKETOKEN''),
      rpc_outcome = (\<lambda>tr c req. Inl (TransportServerError ''401 Unauthorized'' (Some 500))),
      today = (\<lambda>tr. (2026, 1, 13))\<rparr>"

text \<open>The Monarch object of the tests right after its construction, and the world then.\<close>

definition example_monarch :: Monarch where
  "example_monarch =
     \<lparr>un = ''blah'', pw = ''blah'', token = ''blah'', fn_tx_report = ''out/rt.csv'',
      fn_balance_report = ''out/rb.csv'', fn_balance_history_report = ''out/rbh.csv'',
      fn_portfolio_report = ''out/rp.csv'', retry_delay = 0,
      session_file = Some ''out/session.pickle'',
      mm = \<lparr>cl_id = 0, cl_session_file = Some ''out/session.pickle'', cl_token = None\<rparr>\<rparr>"

definition example_world :: world where
  "example_world =
     \<lparr>w_trace = [ClientCreated 0 (Some ''out/session.pickle'')], w_next_id = 1,
      w_files = Map.empty\<rparr>"

text \<open>The same object and world after the caller's first \<open>login()\<close>, which loaded the
  saved session.\<close>

definition logged_in_monarch :: Monarch where
  "logged_in_monarch =
     example_monarch\<lparr>mm := \<lparr>cl_id = 0, cl_session_file = Some ''out/session.pickle'',
                              cl_token = Some ''STALE''\<rparr>\<rparr>"

definition logged_in_world :: world where
  "logged_in_world =
     \<lparr>w_trace = [ClientCreated 0 (Some ''out/session.pickle''), LoginInvoked True,
                 ClientLogin 0 (LoginArgs ''blah'' ''blah'' True True ''blah'') (Inr ''STALE'')],
      w_next_id = 1, w_files = Map.empty\<rparr>"

text \<open>The row objects of the example accounts, for a zone five hours behind UTC.\<close>

definition example_accounts :: "Account list" where
  "example_accounts =
     [\<lparr>acc_id = 101, acc_account = ''Checking'', acc_balance = Decimal False 181171 (- 2),
       acc_holdingsCount = 0, acc_datetime = ''2026-01-12T14:28:13.637497+00:00'',
       acc_date_eastern = ''2026-01-12''\<rparr>,
      \<lparr>acc_id = 102, acc_account = ''Brokerage'', acc_balance = Decimal False 5000000 (- 2),
       acc_holdingsCount = 2, acc_datetime = ''2026-01-12T14:28:13.637497+00:00'',
       acc_date_eastern = ''2026-01-12''\<rparr>]"

text \<open>An account updated at 03:00 UTC on New Year's Day, and the zone offset of Eastern
  Standard Time, which is in force at that instant.\<close>

definition new_year_account_d :: account_d where
  "new_year_account_d =
     AccountD 101 (Some ''Checking'') (Some (Decimal False 181171 (- 2))) (Some 0)
       (Some \<lparr>dt_year = 2026, dt_month = 1, dt_day = 1, dt_hour = 3, dt_minute = 0,
              dt_second = 0, dt_microsecond = 0, dt_utcoffset = Some 0\<rparr>)"

definition eastern_standard :: tzinfo where
  "eastern_standard t = - 18000"

text \<open>A holdings entry whose quantity, basis and price were read from the source texts
  \<open>0.0000001\<close>, \<open>2227.6\<close> and \<open>33.03\<close>.\<close>

definition tiny_quantity_edge :: edge_d where
  "tiny_quantity_edge =
     EdgeD (Some (AggregateHoldingD 1 (parse_decimal ''0.0000001'') (parse_decimal ''2227.6'')
       None (Some (SecurityD 9 None (Some ''AAA'') (parse_decimal ''33.03'')))))"

text \<open>An account row whose holdings count is below zero: the schema field is an integer
  without a range check.\<close>

definition negative_count_accounts :: "Account list" where
  "negative_count_accounts =
     [\<lparr>acc_id = 103, acc_account = ''Margin'', acc_balance = Decimal False 0 0,
       acc_holdingsCount = - 1, acc_datetime = ''2026-01-12T14:28:13.637497+00:00'',
       acc_date_eastern = ''2026-01-12''\<rparr>]"

section \<open>Basic facts\<close>

lemma bind_r_simps [simp]:
  "bind_r (Inl e) f = Inl e" "bind_r (Inr v) f = f v"
  by (simp_all add: bind_r_def)

lemma bind_r_Inr_iff: "bind_r r f = Inr y \<longleftrightarrow> (\<exists>v. r = Inr v \<and> f v = Inr y)"
  by (cases r) simp_all

lemma getitem_simps [simp]:
  "getitem None k = Inl (KeyError k)" "getitem (Some x) k = Inr x"
  by (simp_all add: getitem_def)

lemma list_comprehension_Inr:
  "list_comprehension f xs = Inr ys \<longleftrightarrow> list_all2 (\<lambda>x y. f x = Inr y) xs ys"
proof (induction xs arbitrary: ys)
  case Nil
  then show ?case by auto
next
  case (Cons x xs)
  show ?case
    by (cases ys) (auto simp: bind_r_Inr_iff Cons.IH)
qed

lemma list_comprehension_Inl:
  "x \<in> set xs \<Longrightarrow> f x = Inl e \<Longrightarrow> \<exists>e'. list_comprehension f xs = Inl e'"
proof (induction xs)
  case Nil
  then show ?case by simp
next
  case (Cons a xs)
  show ?case
  proof (cases "f a")
    case (Inl e1)
    then show ?thesis by simp
  next
    case (Inr y)
    show ?thesis
    proof (cases "a = x")
      case True
      with Cons.prems Inr show ?thesis by simp
    next
      case False
      with Cons obtain e' where "list_comprehension f xs = Inl e'" by auto
      with Inr show ?thesis by simp
    qed
  qed
qed

subsection \<open>\<open>str\<close> on integers is injective\<close>

lemma lt10_cases:
  "(d::nat) < 10 \<Longrightarrow>
   d = 0 \<or> d = 1 \<or> d = 2 \<or> d = 3 \<or> d = 4 \<or> d = 5 \<or> d = 6 \<or> d = 7 \<or> d = 8 \<or> d = 9"
  by arith

lemma digit_char_simps:
  "digit_char 0 = CHR ''0''" "digit_char 1 = CHR ''1''" "digit_char 2 = CHR ''2''"
  "digit_char 3 = CHR ''3''" "digit_char 4 = CHR ''4''" "digit_char 5 = CHR ''5''"
  "digit_char 6 = CHR ''6''" "digit_char 7 = CHR ''7''" "digit_char 8 = CHR ''8''"
  "digit_char 9 = CHR ''9''" "digit_char (Suc 0) = CHR ''1''"
  by (simp_all add: digit_char_def)

lemma digit_char_inj:
  assumes "a < 10" "b < 10" "digit_char a = digit_char b"
  shows "a = b"
  using lt10_cases [OF assms(1)] lt10_cases [OF assms(2)] assms(3)
  by (elim disjE) (simp_all add: digit_char_simps)

lemma digit_char_not_minus:
  assumes "d < 10"
  shows "digit_char d \<noteq> CHR ''-''"
  using lt10_cases [OF assms] by (elim disjE) (simp_all add: digit_char_simps)

lemma str_nat_nonempty: "str_nat n \<noteq> []" "[] \<noteq> str_nat n"
  by (subst str_nat.simps, simp)+

lemma str_nat_hd: "hd (str_nat n) \<noteq> CHR ''-''"
proof (induction n rule: str_nat.induct)
  case (1 n)
  show ?case
  proof (cases "n < 10")
    case True
    then show ?thesis by (subst str_nat.simps) (simp add: digit_char_not_minus)
  next
    case False
    with 1 show ?thesis
      by (subst str_nat.simps) (simp add: str_nat_nonempty)
  qed
qed

lemma str_nat_inj: "str_nat m = str_nat n \<Longrightarrow> m = n"
proof (induction m arbitrary: n rule: str_nat.induct)
  case (1 m)
  show ?case
  proof (cases "m < 10")
    case m: True
    show ?thesis
    proof (cases "n < 10")
      case True
      with m 1(2) show ?thesis
        by (simp add: str_nat.simps [of m] str_nat.simps [of n] digit_char_inj)
    next
      case False
      with m 1(2) show ?thesis
        by (simp add: str_nat.simps [of m] str_nat.simps [of n] str_nat_nonempty)
    qed
  next
    case m: False
    show ?thesis
    proof (cases "n < 10")
      case True
      with m 1(2) show ?thesis
        by (simp add: str_nat.simps [of m] str_nat.simps [of n] str_nat_nonempty)
    next
      case False
      with m 1(2) have "str_nat (m div 10) = str_nat (n div 10)"
        and d: "digit_char (m mod 10) = digit_char (n mod 10)"
        by (simp_all add: str_nat.simps [of m] str_nat.simps [of n])
      with 1(1) m have "m div 10 = n div 10" by simp
      moreover from d have "m mod 10 = n mod 10" by (simp add: digit_char_inj)
      ultimately show ?thesis by (metis div_mult_mod_eq)
    qed
  qed
qed

lemma str_int_inj: "str_int i = str_int j \<Longrightarrow> i = j"
proof -
  assume a: "str_int i = str_int j"
  have neg: "\<And>n k. CHR ''-'' # str_nat n \<noteq> str_nat k"
    by (metis list.sel(1) str_nat_hd)
  show ?thesis
    using a neg neg [symmetric]
    by (auto simp: str_int_def dest!: str_nat_inj split: if_splits)
qed

section \<open>The category-to-group lookup\<close>

lemma make_map_loop_lookup:
  "\<forall>c\<in>set cs. group_name c \<noteq> None \<Longrightarrow>
   \<exists>m'. make_map_loop cs m = Inr m' \<and>
     (\<forall>k. m' k = (if k \<in> (\<lambda>c. str_int (c_id c)) ` set cs
                   then group_name (last (filter (\<lambda>c. str_int (c_id c) = k) cs))
                   else m k))"
proof (induction cs arbitrary: m)
  case Nil
  then show ?case by simp
next
  case (Cons x xs)
  from Cons.prems obtain g n where g: "c_group x = Some g" "g_name g = Some n"
    by (auto simp: group_name_def split: option.splits)
  from Cons.prems have "\<forall>c\<in>set xs. group_name c \<noteq> None" by simp
  from Cons.IH [OF this, of "m(str_int (c_id x) \<mapsto> n)"]
  obtain m' where m': "make_map_loop xs (m(str_int (c_id x) \<mapsto> n)) = Inr m'"
    and look: "\<And>k. m' k = (if k \<in> (\<lambda>c. str_int (c_id c)) ` set xs
                   then group_name (last (filter (\<lambda>c. str_int (c_id c) = k) xs))
                   else (m(str_int (c_id x) \<mapsto> n)) k)"
    by blast
  have "make_map_loop (x # xs) m = Inr m'"
    using g m' by simp
  moreover have "m' k = (if k \<in> (\<lambda>c. str_int (c_id c)) ` set (x # xs)
                   then group_name (last (filter (\<lambda>c. str_int (c_id c) = k) (x # xs)))
                   else m k)" for k
  proof (cases "k \<in> (\<lambda>c. str_int (c_id c)) ` set xs")
    case True
    then have "filter (\<lambda>c. str_int (c_id c) = k) xs \<noteq> []"
      by (auto simp: filter_empty_conv)
    with True look [of k] show ?thesis by simp
  next
    case False
    then have "filter (\<lambda>c. str_int (c_id c) = k) xs = []"
      by (auto simp: filter_empty_conv)
    with False look [of k] g show ?thesis by (auto simp: group_name_def)
  qed
  ultimately show ?case by blast
qed

lemma last_filter_in_set:
  "filter P xs \<noteq> [] \<Longrightarrow> last (filter P xs) \<in> set xs \<and> P (last (filter P xs))"
proof -
  assume "filter P xs \<noteq> []"
  then have "last (filter P xs) \<in> set (filter P xs)" by (rule last_in_set)
  then show ?thesis by simp
qed

lemma make_map_loop_dom:
  assumes "\<forall>c\<in>set cs. group_name c \<noteq> None" "make_map_loop cs m = Inr m'"
  shows "dom m' = dom m \<union> (\<lambda>c. str_int (c_id c)) ` set cs"
proof -
  from make_map_loop_lookup [OF assms(1), of m] assms(2)
  have look: "\<And>k. m' k = (if k \<in> (\<lambda>c. str_int (c_id c)) ` set cs
                   then group_name (last (filter (\<lambda>c. str_int (c_id c) = k) cs))
                   else m k)"
    by auto
  have "m' k \<noteq> None" if "k \<in> (\<lambda>c. str_int (c_id c)) ` set cs" for k
  proof -
    from that have "filter (\<lambda>c. str_int (c_id c) = k) cs \<noteq> []"
      by (auto simp: filter_empty_conv)
    then have "last (filter (\<lambda>c. str_int (c_id c) = k) cs) \<in> set cs"
      by (simp add: last_filter_in_set)
    with assms(1) that look [of k] show ?thesis by auto
  qed
  moreover have "m' k = m k" if "k \<notin> (\<lambda>c. str_int (c_id c)) ` set cs" for k
    using that look [of k] by simp
  ultimately show ?thesis by (auto simp: dom_def) metis+
qed

lemma card_keys: "card ((\<lambda>c. str_int (c_id c)) ` set cs) = card (set (map c_id cs))"
proof -
  have "(\<lambda>c. str_int (c_id c)) ` set cs = str_int ` set (map c_id cs)" by auto
  moreover have "inj_on str_int (set (map c_id cs))"
    by (auto simp: inj_on_def dest: str_int_inj)
  ultimately show ?thesis by (simp add: card_image)
qed


lemma filter_distinct_key:
  "distinct (map f xs) \<Longrightarrow> x \<in> set xs \<Longrightarrow> filter (\<lambda>y. f y = f x) xs = [x]"
proof (induction xs)
  case Nil
  then show ?case by simp
next
  case (Cons a xs)
  show ?case
  proof (cases "x = a")
    case True
    with Cons.prems have "filter (\<lambda>y. f y = f x) xs = []"
      by (auto simp: filter_empty_conv image_iff)
    with True show ?thesis by simp
  next
    case False
    with Cons.prems have "x \<in> set xs" "f a \<noteq> f x" by auto
    with Cons show ?thesis by simp
  qed
qed

lemma CategoryQuerySchema_load_lookup:
  assumes "r_categories data = Some cs" "\<forall>c\<in>set cs. group_name c \<noteq> None"
  shows "\<exists>m. CategoryQuerySchema_load data = Inr m \<and>
           dom m = (\<lambda>c. str_int (c_id c)) ` set cs \<and>
           (\<forall>c\<in>set cs. m (str_int (c_id c)) =
                group_name (last (filter (\<lambda>c'. c_id c' = c_id c) cs)))"
proof -
  from make_map_loop_lookup [OF assms(2), of Map.empty]
  obtain m where m: "make_map_loop cs Map.empty = Inr m"
    and look: "\<And>k. m k = (if k \<in> (\<lambda>c. str_int (c_id c)) ` set cs
                   then group_name (last (filter (\<lambda>c. str_int (c_id c) = k) cs))
                   else None)"
    by auto
  have load: "CategoryQuerySchema_load data = Inr m"
    using assms(1) m by (simp add: CategoryQuerySchema_load_def make_map_def)
  have eq: "(\<lambda>c'. str_int (c_id c') = str_int (c_id c)) = (\<lambda>c'. c_id c' = c_id c)" for c
    by (auto dest: str_int_inj)
  have "m (str_int (c_id c)) = group_name (last (filter (\<lambda>c'. c_id c' = c_id c) cs))"
    if "c \<in> set cs" for c
    using that look [of "str_int (c_id c)"] by (simp add: eq)
  moreover have "dom m = (\<lambda>c. str_int (c_id c)) ` set cs"
    using make_map_loop_dom [OF assms(2) m] by simp
  ultimately show ?thesis using load by blast
qed

text \<open>
  Claim C9, as amended. For a category-list response in which every category carries its
  group's name and the category identifiers are pairwise distinct, building the lookup
  succeeds, the lookup has exactly one entry per category, keyed by the category's
  stringified identifier, and the entry's value is that category's group display name.
\<close>

theorem make_map_one_entry_per_category:
  assumes "r_categories data = Some cs"
      and "\<forall>c\<in>set cs. group_name c \<noteq> None"
      and "distinct (map c_id cs)"
  shows "\<exists>m. CategoryQuerySchema_load data = Inr m \<and>
           dom m = (\<lambda>c. str_int (c_id c)) ` set cs \<and>
           card (dom m) = length cs \<and>
           (\<forall>c\<in>set cs. m (str_int (c_id c)) = group_name c)"
proof -
  from CategoryQuerySchema_load_lookup [OF assms(1,2)]
  obtain m where load: "CategoryQuerySchema_load data = Inr m"
    and d: "dom m = (\<lambda>c. str_int (c_id c)) ` set cs"
    and look: "\<And>c. c \<in> set cs \<Longrightarrow> m (str_int (c_id c)) =
                group_name (last (filter (\<lambda>c'. c_id c' = c_id c) cs))"
    by blast
  have "card (dom m) = length cs"
    using d distinct_card [OF assms(3)] by (simp add: card_keys del: set_map)
  moreover have "m (str_int (c_id c)) = group_name c" if "c \<in> set cs" for c
    using look [OF that] filter_distinct_key [OF assms(3) that] by simp
  ultimately show ?thesis using load d by blast
qed

text \<open>
  Claim C10. When two entries of a category list (each carrying its group's name) have the
  same identifier, building the lookup succeeds; every identifier is mapped to the group
  name of the last entry with that identifier in input order; and the lookup has fewer
  entries than the response has categories.
\<close>

theorem make_map_duplicate_ids_last_wins:
  assumes "r_categories data = Some cs"
      and "\<forall>c\<in>set cs. group_name c \<noteq> None"
      and "i < j" "j < length cs" "c_id (cs ! i) = c_id (cs ! j)"
  shows "\<exists>m. CategoryQuerySchema_load data = Inr m \<and>
           (\<forall>c\<in>set cs. m (str_int (c_id c)) =
                group_name (last (filter (\<lambda>c'. c_id c' = c_id c) cs))) \<and>
           card (dom m) < length cs"
proof -
  from CategoryQuerySchema_load_lookup [OF assms(1,2)]
  obtain m where load: "CategoryQuerySchema_load data = Inr m"
    and d: "dom m = (\<lambda>c. str_int (c_id c)) ` set cs"
    and look: "\<forall>c\<in>set cs. m (str_int (c_id c)) =
                group_name (last (filter (\<lambda>c'. c_id c' = c_id c) cs))"
    by blast
  have "\<not> distinct (map c_id cs)"
  proof
    assume "distinct (map c_id cs)"
    moreover from assms(3,4) have "i < length (map c_id cs)" "j < length (map c_id cs)" "i \<noteq> j"
      by simp_all
    ultimately have "map c_id cs ! i \<noteq> map c_id cs ! j"
      using nth_eq_iff_index_eq by blast
    with assms(3-5) show False by simp
  qed
  then have "card (set (map c_id cs)) \<noteq> length (map c_id cs)"
    using card_distinct by blast
  moreover have "card (set (map c_id cs)) \<le> length (map c_id cs)"
    by (rule card_length)
  ultimately have "card (dom m) < length cs"
    using d by (simp add: card_keys)
  with load look show ?thesis by blast
qed


text \<open>Unfolding these evaluates \<open>str\<close> on a numeral.\<close>

lemmas eval_str = str_int_def str_nat.simps digit_char_def

text \<open>The amended claim at a response with two categories of different identifiers.\<close>

theorem make_map_one_entry_per_category_witness:
  "distinct (map c_id example_categories) \<and>
   list_all (\<lambda>c. group_name c \<noteq> None) example_categories \<and>
   (\<exists>m. CategoryQuerySchema_load (categories_response example_categories) = Inr m \<and>
        card (dom m) = 2 \<and> m ''12'' = Some ''Personal'' \<and> m ''171'' = Some ''Home'')"
proof -
  have h1: "r_categories (categories_response example_categories) = Some example_categories"
    by (simp add: categories_response_def)
  have h2: "\<forall>c\<in>set example_categories. group_name c \<noteq> None"
    by (simp add: example_categories_def group_name_def)
  have h3: "distinct (map c_id example_categories)"
    by (simp add: example_categories_def)
  from make_map_one_entry_per_category [OF h1 h2 h3]
  obtain m where "CategoryQuerySchema_load (categories_response example_categories) = Inr m"
    "card (dom m) = length example_categories"
    "\<forall>c\<in>set example_categories. m (str_int (c_id c)) = group_name c"
    by blast
  then have "CategoryQuerySchema_load (categories_response example_categories) = Inr m \<and>
        card (dom m) = 2 \<and> m ''12'' = Some ''Personal'' \<and> m ''171'' = Some ''Home''"
    by (simp add: example_categories_def group_name_def eval_str)
  with h2 h3 show ?thesis by (auto simp: list_all_iff)
qed

text \<open>
  Claim C9 as stated fails when two categories share an identifier: the response below has
  two categories, the lookup built from it has one entry, and the value under the first
  category's key is the group name of the second category, not of the first.
\<close>

theorem make_map_one_entry_per_category_counterexample:
  "length duplicate_categories = 2 \<and>
   group_name (duplicate_categories ! 0) = Some ''Home'' \<and>
   (case CategoryQuerySchema_load (categories_response duplicate_categories) of
      Inl e \<Rightarrow> False
    | Inr m \<Rightarrow> card (dom m) = 1 \<and>
               m (str_int (c_id (duplicate_categories ! 0))) = Some ''Housing'')"
  by (simp add: duplicate_categories_def categories_response_def CategoryQuerySchema_load_def
        make_map_def group_name_def eval_str)

text \<open>Claim C10 at a list of three categories whose first and last share the identifier 7.\<close>

theorem make_map_duplicate_ids_last_wins_witness:
  "c_id (overwritten_categories ! 0) = c_id (overwritten_categories ! 2) \<and>
   (\<exists>m. CategoryQuerySchema_load (categories_response overwritten_categories) = Inr m \<and>
        m ''7'' = Some ''Housing'' \<and> card (dom m) < 3)"
proof -
  have h1: "r_categories (categories_response overwritten_categories) = Some overwritten_categories"
    by (simp add: categories_response_def)
  have h2: "\<forall>c\<in>set overwritten_categories. group_name c \<noteq> None"
    by (simp add: overwritten_categories_def group_name_def)
  have h3: "(0::nat) < 2" by simp
  have h4: "2 < length overwritten_categories"
    by (simp add: overwritten_categories_def)
  have h5: "c_id (overwritten_categories ! 0) = c_id (overwritten_categories ! 2)"
    by (simp add: overwritten_categories_def)
  from make_map_duplicate_ids_last_wins [OF h1 h2 h3 h4 h5]
  obtain m where "CategoryQuerySchema_load (categories_response overwritten_categories) = Inr m"
    "\<forall>c\<in>set overwritten_categories. m (str_int (c_id c)) =
        group_name (last (filter (\<lambda>c'. c_id c' = c_id c) overwritten_categories))"
    "card (dom m) < length overwritten_categories"
    by blast
  then have "CategoryQuerySchema_load (categories_response overwritten_categories) = Inr m \<and>
        m ''7'' = Some ''Housing'' \<and> card (dom m) < 3"
    by (simp add: overwritten_categories_def group_name_def eval_str)
  with h5 show ?thesis by blast
qed

section \<open>Mapping transactions\<close>

lemma catmap_getitem_simps:
  "catmap k = Some v \<Longrightarrow> catmap_getitem catmap k = Inr v"
  "catmap k = None \<Longrightarrow> catmap_getitem catmap k = Inl (KeyError k)"
  by (simp_all add: catmap_getitem_def)

lemma Transaction_init_complete:
  assumes "transaction_complete t" "category_key t = Some k" "catmap k = Some g"
  shows "\<exists>row. Transaction_init t catmap = Inr row \<and> tx_group row = g"
  using assms
  by (auto simp: transaction_complete_def category_key_def Transaction_init_def
        catmap_getitem_simps split: option.splits)

lemma Transaction_init_missing:
  assumes "category_key t = Some k" "catmap k = None"
  shows "\<exists>e. Transaction_init t catmap = Inl e"
proof (cases "Transaction_init t catmap")
  case (Inl e)
  then show ?thesis by blast
next
  case (Inr row)
  with assms show ?thesis
    by (auto simp: category_key_def Transaction_init_def bind_r_Inr_iff catmap_getitem_def
          getitem_def split: option.splits)
qed

lemma Transaction_init_group:
  assumes "Transaction_init t catmap = Inr row"
  shows "\<exists>k. category_key t = Some k \<and> catmap k = Some (tx_group row)"
  using assms
  by (auto simp: category_key_def Transaction_init_def bind_r_Inr_iff catmap_getitem_def
        getitem_def split: option.splits)

text \<open>
  Claim C3. For a transaction-list response whose entries have the expected shape, and a
  lookup that contains the key of every category the transactions refer to, the mapping
  succeeds with exactly one row per transaction, the row at each position is the one built
  from the transaction at that position, and its group is the lookup's value under the
  transaction's stringified category identifier.
\<close>

theorem transactions_mapped_in_order:
  assumes "r_allTransactions data = Some txl" "tl_results txl = Some rs"
      and "\<forall>t\<in>set rs. transaction_complete t"
      and "\<forall>t\<in>set rs. \<forall>k. category_key t = Some k \<longrightarrow> k \<in> dom catmap"
  shows "\<exists>rows. TransactionsQuerySchema_load catmap data = Inr rows \<and>
           length rows = length rs \<and>
           (\<forall>i<length rs. Transaction_init (rs ! i) catmap = Inr (rows ! i) \<and>
                (\<exists>k. category_key (rs ! i) = Some k \<and> catmap k = Some (tx_group (rows ! i))))"
proof -
  have ok: "\<exists>row. Transaction_init t catmap = Inr row" if "t \<in> set rs" for t
  proof -
    from assms(3) that have c: "transaction_complete t" by blast
    then obtain k where k: "category_key t = Some k"
      by (auto simp: transaction_complete_def category_key_def split: option.splits)
    with assms(4) that obtain g where g: "catmap k = Some g" by blast
    from Transaction_init_complete [of t k catmap g] c k g show ?thesis by blast
  qed
  have "\<exists>rows. list_all2 (\<lambda>t row. Transaction_init t catmap = Inr row) rs rows"
    using ok
  proof (induction rs)
    case Nil
    then show ?case by simp
  next
    case (Cons a rs)
    then obtain rows row where "list_all2 (\<lambda>t row. Transaction_init t catmap = Inr row) rs rows"
      "Transaction_init a catmap = Inr row"
      by (meson list.set_intros)
    then have "list_all2 (\<lambda>t row. Transaction_init t catmap = Inr row) (a # rs) (row # rows)"
      by simp
    then show ?case by blast
  qed
  then obtain rows where rows: "list_all2 (\<lambda>t row. Transaction_init t catmap = Inr row) rs rows"
    by blast
  then have load: "TransactionsQuerySchema_load catmap data = Inr rows"
    using assms(1,2) by (simp add: TransactionsQuerySchema_load_def list_comprehension_Inr)
  from rows have len: "length rows = length rs"
    by (simp add: list_all2_lengthD)
  have "Transaction_init (rs ! i) catmap = Inr (rows ! i) \<and>
        (\<exists>k. category_key (rs ! i) = Some k \<and> catmap k = Some (tx_group (rows ! i)))"
    if "i < length rs" for i
  proof -
    from list_all2_nthD [OF rows that]
    have "Transaction_init (rs ! i) catmap = Inr (rows ! i)" .
    with Transaction_init_group [OF this] show ?thesis by blast
  qed
  with load len show ?thesis by blast
qed


text \<open>Claim C3 at a response with two transactions.\<close>

theorem transactions_mapped_in_order_witness:
  "list_all transaction_complete example_transactions \<and>
   (\<exists>rows. TransactionsQuerySchema_load example_catmap
              (transactions_response example_transactions) = Inr rows \<and>
           length rows = 2 \<and>
           tx_group (rows ! 0) = ''Personal'' \<and> tx_group (rows ! 1) = ''Home'')"
proof -
  have h1: "r_allTransactions (transactions_response example_transactions)
              = Some (TransactionListD (Some example_transactions))"
    by (simp add: transactions_response_def)
  have h2: "tl_results (TransactionListD (Some example_transactions)) = Some example_transactions"
    by simp
  have h3: "\<forall>t\<in>set example_transactions. transaction_complete t"
    by (simp add: example_transactions_def transaction_complete_def example_account_d_def)
  have h4: "\<forall>t\<in>set example_transactions. \<forall>k. category_key t = Some k \<longrightarrow> k \<in> dom example_catmap"
    by (simp add: example_transactions_def category_key_def example_catmap_def eval_str)
  from transactions_mapped_in_order [OF h1 h2 h3 h4]
  obtain rows where load: "TransactionsQuerySchema_load example_catmap
              (transactions_response example_transactions) = Inr rows"
    and len: "length rows = length example_transactions"
    and each: "\<And>i. i < length example_transactions \<Longrightarrow>
          (\<exists>k. category_key (example_transactions ! i) = Some k \<and>
               example_catmap k = Some (tx_group (rows ! i)))"
    by blast
  from each [of 0] have "tx_group (rows ! 0) = ''Personal''"
    by (simp add: example_transactions_def category_key_def example_catmap_def eval_str)
  moreover from each [of 1] have "tx_group (rows ! 1) = ''Home''"
    by (simp add: example_transactions_def category_key_def example_catmap_def eval_str)
  moreover from len have "length rows = 2"
    by (simp add: example_transactions_def)
  ultimately show ?thesis using load h3 by (auto simp: list_all_iff)
qed

section \<open>The retry controller\<close>

lemma rpc_outcomes_append [simp]: "rpc_outcomes (xs @ ys) = rpc_outcomes xs @ rpc_outcomes ys"
  by (induction xs) (auto split: event.splits)

lemma rpc_clients_append [simp]: "rpc_clients (xs @ ys) = rpc_clients xs @ rpc_clients ys"
  by (induction xs) (auto split: event.splits)

lemma rpc_requests_append [simp]: "rpc_requests (xs @ ys) = rpc_requests xs @ rpc_requests ys"
  by (induction xs) (auto split: event.splits)

lemma login_flags_append [simp]: "login_flags (xs @ ys) = login_flags xs @ login_flags ys"
  by (induction xs) (auto split: event.splits)

lemma login_results_append [simp]: "login_results (xs @ ys) = login_results xs @ login_results ys"
  by (induction xs) (auto split: event.splits)

lemma files_opened_append [simp]: "files_opened (xs @ ys) = files_opened xs @ files_opened ys"
  by (induction xs) (auto split: event.splits)

lemma stop_after_attempt_simps [simp]:
  "stop_after_attempt 2 (Suc 0) = False" "stop_after_attempt 2 (Suc (Suc 0)) = True"
  by (simp_all add: stop_after_attempt_def)

text \<open>The controller from the first attempt on, the loop unrolled: at most two attempts.\<close>

lemma retrying_unfold:
  "retrying ev fn (Suc 0) self w =
     (case fn self w of
        (Inr v, w1) \<Rightarrow> (Inr v, self, w1)
      | (Inl e, w1) \<Rightarrow>
          if \<not> retry_predicate e then (Inl e, self, w1)
          else (case login ev False self w1 of
                  (Inl e', self2, w2) \<Rightarrow> (Inl e', self2, w2)
                | (Inr u, self2, w2) \<Rightarrow>
                    (case fn self2 (log_event (Slept (retry_delay self)) w2) of
                       (out, w4) \<Rightarrow> (out, self2, w4))))"
  apply (subst retrying.simps)
  apply (subst retrying.simps)
  apply (simp add: login_before_sleep_def wait_from_instance_def Let_def
      split: prod.splits sum.splits)
  done


lemma wrapped_is_retrying:
  assumes "f \<in> {get_categories ev, get_transactions ev, get_accounts ev, get_holdings ev account_id}"
  shows "\<exists>rq. f = retrying ev (\<lambda>self w. mm_call ev (rq w) self w) (Suc 0)"
proof -
  from assms consider "f = get_categories ev" | "f = get_transactions ev"
    | "f = get_accounts ev" | "f = get_holdings ev account_id"
    by blast
  then show ?thesis
  proof cases
    case 1
    then show ?thesis
      by (intro exI [of _ "\<lambda>_. GetTransactionCategories"]) (simp add: get_categories_def)
  next
    case 2
    then show ?thesis
      by (intro exI [of _ "\<lambda>w. GetTransactions RECORD_LIMIT_TX
             (date_isoformat (fst (today ev (w_trace w)), 1, 1))
             (date_isoformat (today ev (w_trace w)))"]) (simp add: get_transactions_def)
  next
    case 3
    then show ?thesis
      by (intro exI [of _ "\<lambda>_. GetAccounts"]) (simp add: get_accounts_def)
  next
    case 4
    then show ?thesis
      by (intro exI [of _ "\<lambda>_. GetAccountHoldings account_id"]) (simp add: get_holdings_def)
  qed
qed

text \<open>The session file argument \<open>_init_mm\<close> passes to the constructor.\<close>

lemma login_False_trace:
  assumes "login ev False self w = (res, self', w')"
  shows "\<exists>out arg.
     arg = configured_session_file self \<and>
     out = login_outcome ev (w_trace w @ [LoginInvoked False, ClientCreated (w_next_id w) arg])
             \<lparr>cl_id = w_next_id w, cl_session_file = arg, cl_token = None\<rparr>
             (LoginArgs (un self) (pw self) True False (token self)) \<and>
     w_trace w' = w_trace w @ [LoginInvoked False, ClientCreated (w_next_id w) arg,
        ClientLogin (w_next_id w) (LoginArgs (un self) (pw self) True False (token self)) out] \<and>
     w_next_id w' = Suc (w_next_id w) \<and> w_files w' = w_files w \<and>
     (case out of
        Inl e \<Rightarrow> res = Inl e \<and>
          self' = self\<lparr>mm := \<lparr>cl_id = w_next_id w, cl_session_file = arg, cl_token = None\<rparr>\<rparr>
      | Inr tok \<Rightarrow> res = Inr () \<and>
          self' = self\<lparr>mm := \<lparr>cl_id = w_next_id w, cl_session_file = arg, cl_token = Some tok\<rparr>\<rparr>)"
  using assms
  by (auto simp: login_def init_mm_def log_event_def Let_def configured_session_file_def
        split: sum.splits)

lemma mm_call_trace:
  "mm_call ev req self w = (out, w') \<longleftrightarrow>
     out = rpc_outcome ev (w_trace w) (mm self) req \<and>
     w' = w\<lparr>w_trace := w_trace w @ [RpcCall (cl_id (mm self)) req out]\<rparr>"
  by (auto simp: mm_call_def log_event_def Let_def)


lemma retry_predicate_unauthorized: "retry_predicate e = unauthorized e"
  by (cases e) (simp_all add: retry_predicate_def unauthorized_def is_exception_401_def
      is_TransportServerError_def)

lemma wrapped_call_trace:
  assumes "retrying ev (\<lambda>self w. mm_call ev (rq w) self w) (Suc 0) self w = (r, self', w')"
  shows "\<exists>new. w_trace w' = w_trace w @ new \<and> w_files w' = w_files w \<and>
     ((new = [RpcCall (cl_id (mm self)) (rq w) r] \<and> (\<forall>e. r = Inl e \<longrightarrow> \<not> unauthorized e) \<and>
       self' = self \<and> w_next_id w' = w_next_id w)
    \<or> (\<exists>e e'. unauthorized e \<and> r = Inl e' \<and>
          new = [RpcCall (cl_id (mm self)) (rq w) (Inl e), LoginInvoked False,
                 ClientCreated (w_next_id w) (configured_session_file self),
                 ClientLogin (w_next_id w) (LoginArgs (un self) (pw self) True False (token self))
                   (Inl e')] \<and>
          self' = self\<lparr>mm := \<lparr>cl_id = w_next_id w,
                                cl_session_file = configured_session_file self,
                                cl_token = None\<rparr>\<rparr> \<and>
          w_next_id w' = Suc (w_next_id w))
    \<or> (\<exists>e tok w3. unauthorized e \<and>
          new = [RpcCall (cl_id (mm self)) (rq w) (Inl e), LoginInvoked False,
                 ClientCreated (w_next_id w) (configured_session_file self),
                 ClientLogin (w_next_id w) (LoginArgs (un self) (pw self) True False (token self))
                   (Inr tok),
                 Slept (retry_delay self),
                 RpcCall (w_next_id w) (rq w3) r] \<and>
          self' = self\<lparr>mm := \<lparr>cl_id = w_next_id w,
                                cl_session_file = configured_session_file self,
                                cl_token = Some tok\<rparr>\<rparr> \<and>
          w_next_id w' = Suc (w_next_id w) \<and>
          login_outcome ev
            (w_trace w @ [RpcCall (cl_id (mm self)) (rq w) (Inl e), LoginInvoked False,
                          ClientCreated (w_next_id w) (configured_session_file self)])
            \<lparr>cl_id = w_next_id w, cl_session_file = configured_session_file self,
             cl_token = None\<rparr>
            (LoginArgs (un self) (pw self) True False (token self)) = Inr tok))"
proof -
  define w1 where "w1 = w\<lparr>w_trace := w_trace w @ [RpcCall (cl_id (mm self)) (rq w)
                           (rpc_outcome ev (w_trace w) (mm self) (rq w))]\<rparr>"
  have first: "mm_call ev (rq w) self w = (rpc_outcome ev (w_trace w) (mm self) (rq w), w1)"
    by (simp add: mm_call_trace w1_def)
  show ?thesis
  proof (cases "rpc_outcome ev (w_trace w) (mm self) (rq w)")
    case (Inr v)
    with assms first have "r = Inr v" "self' = self" "w' = w1"
      by (simp_all add: retrying_unfold)
    with Inr show ?thesis by (simp add: w1_def)
  next
    case (Inl e)
    show ?thesis
    proof (cases "unauthorized e")
      case False
      with assms first Inl have "r = Inl e" "self' = self" "w' = w1"
        by (simp_all add: retrying_unfold retry_predicate_unauthorized)
      with Inl False show ?thesis by (simp add: w1_def)
    next
      case True
      obtain res self2 w2 where lg: "login ev False self w1 = (res, self2, w2)"
        by (metis prod_cases3)
      from login_False_trace [OF lg] obtain out where
        lo: "out = login_outcome ev
               (w_trace w1 @ [LoginInvoked False,
                  ClientCreated (w_next_id w1) (configured_session_file self)])
               \<lparr>cl_id = w_next_id w1, cl_session_file = configured_session_file self,
                cl_token = None\<rparr>
               (LoginArgs (un self) (pw self) True False (token self))" and
        out: "w_trace w2 = w_trace w1 @ [LoginInvoked False,
                ClientCreated (w_next_id w1) (configured_session_file self),
                ClientLogin (w_next_id w1) (LoginArgs (un self) (pw self) True False (token self)) out]"
        and nid: "w_next_id w2 = Suc (w_next_id w1)" and fl: "w_files w2 = w_files w1"
        and cs: "(case out of
            Inl e \<Rightarrow> res = Inl e \<and>
              self2 = self\<lparr>mm := \<lparr>cl_id = w_next_id w1,
                 cl_session_file = configured_session_file self, cl_token = None\<rparr>\<rparr>
          | Inr tok \<Rightarrow> res = Inr () \<and>
              self2 = self\<lparr>mm := \<lparr>cl_id = w_next_id w1,
                 cl_session_file = configured_session_file self, cl_token = Some tok\<rparr>\<rparr>)"
        by blast
      show ?thesis
      proof (cases out)
        case (Inl e')
        with cs have "res = Inl e'" by simp
        with assms first \<open>rpc_outcome ev (w_trace w) (mm self) (rq w) = Inl e\<close> True lg
        have "r = Inl e'" "w' = w2" "self' = self2"
          by (simp_all add: retrying_unfold retry_predicate_unauthorized)
        with out nid fl Inl True cs show ?thesis
          by (simp add: w1_def \<open>rpc_outcome ev (w_trace w) (mm self) (rq w) = Inl e\<close>)
      next
        case (Inr tok)
        with cs have res: "res = Inr ()"
          and self2: "self2 = self\<lparr>mm := \<lparr>cl_id = w_next_id w1,
                 cl_session_file = configured_session_file self, cl_token = Some tok\<rparr>\<rparr>"
          by simp_all
        define w3 where "w3 = log_event (Slept (retry_delay self)) w2"
        from assms first \<open>rpc_outcome ev (w_trace w) (mm self) (rq w) = Inl e\<close> True lg res
        have "mm_call ev (rq w3) self2 w3 = (r, w')" and s': "self' = self2"
          by (simp_all add: retrying_unfold retry_predicate_unauthorized w3_def split: prod.splits)
        then have w': "w' = w3\<lparr>w_trace := w_trace w3 @ [RpcCall (cl_id (mm self2)) (rq w3) r]\<rparr>"
          by (simp add: mm_call_trace)
        have "w_trace w' = w_trace w @ [RpcCall (cl_id (mm self)) (rq w) (Inl e), LoginInvoked False,
                 ClientCreated (w_next_id w) (configured_session_file self),
                 ClientLogin (w_next_id w) (LoginArgs (un self) (pw self) True False (token self))
                   (Inr tok),
                 Slept (retry_delay self),
                 RpcCall (w_next_id w) (rq w3) r]"
          using w' out Inr self2
          by (simp add: w3_def log_event_def w1_def
                \<open>rpc_outcome ev (w_trace w) (mm self) (rq w) = Inl e\<close>)
        moreover have "w_files w' = w_files w" "w_next_id w' = Suc (w_next_id w)"
          using w' fl nid by (simp_all add: w3_def log_event_def w1_def)
        moreover have "self' = self\<lparr>mm := \<lparr>cl_id = w_next_id w,
                                cl_session_file = configured_session_file self,
                                cl_token = Some tok\<rparr>\<rparr>"
          using s' self2 by (simp add: w1_def)
        moreover have "login_outcome ev
            (w_trace w @ [RpcCall (cl_id (mm self)) (rq w) (Inl e), LoginInvoked False,
                          ClientCreated (w_next_id w) (configured_session_file self)])
            \<lparr>cl_id = w_next_id w, cl_session_file = configured_session_file self,
             cl_token = None\<rparr>
            (LoginArgs (un self) (pw self) True False (token self)) = Inr tok"
          using lo Inr
          by (simp add: w1_def \<open>rpc_outcome ev (w_trace w) (mm self) (rq w) = Inl e\<close>)
        ultimately show ?thesis using True by blast
      qed
    qed
  qed
qed

text \<open>The first event of every call is the first attempt, on the instance the object
  holds, with the outcome the environment gives it.\<close>

lemma wrapped_first_attempt:
  assumes "retrying ev (\<lambda>self w. mm_call ev (rq w) self w) (Suc 0) self w = (r, self', w')"
  shows "\<exists>rest. w_trace w' = w_trace w @
           RpcCall (cl_id (mm self)) (rq w) (rpc_outcome ev (w_trace w) (mm self) (rq w)) # rest"
  using assms
  by (auto simp: retrying_unfold mm_call_def login_def init_mm_def log_event_def Let_def
        split: sum.splits if_splits prod.splits)

subsection \<open>Attempts, logins and outcomes\<close>

text \<open>The example object is what the constructor builds in an empty world.\<close>

lemma example_construction:
  "Monarch_init ''blah'' ''blah'' ''blah'' (Some ''out/session.pickle'') ''out/rb.csv''
     ''out/rbh.csv'' ''out/rt.csv'' ''out/rp.csv'' 0
     \<lparr>w_trace = [], w_next_id = 0, w_files = Map.empty\<rparr> = Inr (example_monarch, example_world)"
  by (simp add: Monarch_init_def init_mm_def example_monarch_def example_world_def log_event_def
        Let_def)

text \<open>Unfolding these evaluates a run of a wrapped operation on the example objects.\<close>

lemmas eval_run = get_accounts_def get_categories_def get_transactions_def get_holdings_def
  retrying_unfold mm_call_def login_def init_mm_def log_event_def Let_def
  retry_predicate_def is_exception_401_def is_TransportServerError_def
  example_monarch_def example_world_def logged_in_monarch_def logged_in_world_def

text \<open>
  Claim C1, as amended. For each wrapped RPC operation (\<open>get_categories\<close>,
  \<open>get_transactions\<close>, \<open>get_accounts\<close>, \<open>get_holdings\<close>), the events the call adds to
  the trace begin with the first attempt, whose outcome \<open>first\<close> is the answer of the
  environment; \<open>rest\<close> are the events after it. If the first attempt succeeds, nothing
  follows and its payload is returned. If it fails with an error other than the
  unauthorized condition, nothing follows (no retry, no login) and that error propagates
  unchanged. If it fails with the unauthorized condition (a \<open>TransportServerError\<close> with
  code 401), the call makes exactly one login invocation, with \<open>use_saved_session\<close>
  disabled, which logs the client in exactly once; when that login raises, there is no
  second attempt and the error of the login propagates; when it succeeds, there is exactly
  one more attempt and its outcome is the outcome of the call: a payload is returned
  unchanged, a second failure propagates, and there is no third attempt.
\<close>

theorem retry_controller_outcomes:
  assumes "f \<in> {get_categories ev, get_transactions ev, get_accounts ev, get_holdings ev account_id}"
      and "f self w = (r, self', w')"
  shows "\<exists>req first rest.
           first = rpc_outcome ev (w_trace w) (mm self) req \<and>
           w_trace w' = w_trace w @ RpcCall (cl_id (mm self)) req first # rest \<and>
           (\<forall>p. first = Inr p \<longrightarrow> rest = [] \<and> r = Inr p) \<and>
           (\<forall>e. first = Inl e \<and> \<not> unauthorized e \<longrightarrow> rest = [] \<and> r = Inl e) \<and>
           (\<forall>e. first = Inl e \<and> unauthorized e \<longrightarrow>
              login_flags rest = [False] \<and>
              (\<exists>lg. login_results rest = [lg] \<and>
                 (\<forall>e'. lg = Inl e' \<longrightarrow> rpc_outcomes rest = [] \<and> r = Inl e') \<and>
                 (\<forall>tok. lg = Inr tok \<longrightarrow> rpc_outcomes rest = [r])))"
proof -
  from wrapped_is_retrying [OF assms(1)] obtain rq
    where "f = retrying ev (\<lambda>self w. mm_call ev (rq w) self w) (Suc 0)" by blast
  with assms(2) have run: "retrying ev (\<lambda>self w. mm_call ev (rq w) self w) (Suc 0) self w = (r, self', w')"
    by simp
  define first where "first = rpc_outcome ev (w_trace w) (mm self) (rq w)"
  from wrapped_first_attempt [OF run] obtain rest where
    tr: "w_trace w' = w_trace w @ RpcCall (cl_id (mm self)) (rq w) first # rest"
    by (auto simp: first_def)
  from wrapped_call_trace [OF run] obtain new where
    tr': "w_trace w' = w_trace w @ new" and
    cases: "(new = [RpcCall (cl_id (mm self)) (rq w) r] \<and> (\<forall>e. r = Inl e \<longrightarrow> \<not> unauthorized e))
    \<or> (\<exists>e e'. unauthorized e \<and> r = Inl e' \<and>
          new = [RpcCall (cl_id (mm self)) (rq w) (Inl e), LoginInvoked False,
                 ClientCreated (w_next_id w) (configured_session_file self),
                 ClientLogin (w_next_id w) (LoginArgs (un self) (pw self) True False (token self))
                   (Inl e')])
    \<or> (\<exists>e tok req2. unauthorized e \<and>
          new = [RpcCall (cl_id (mm self)) (rq w) (Inl e), LoginInvoked False,
                 ClientCreated (w_next_id w) (configured_session_file self),
                 ClientLogin (w_next_id w) (LoginArgs (un self) (pw self) True False (token self))
                   (Inr tok),
                 Slept (retry_delay self),
                 RpcCall (w_next_id w) req2 r])"
    by blast
  from tr tr' have new: "new = RpcCall (cl_id (mm self)) (rq w) first # rest" by simp
  from cases have
    "(\<forall>p. first = Inr p \<longrightarrow> rest = [] \<and> r = Inr p) \<and>
     (\<forall>e. first = Inl e \<and> \<not> unauthorized e \<longrightarrow> rest = [] \<and> r = Inl e) \<and>
     (\<forall>e. first = Inl e \<and> unauthorized e \<longrightarrow>
        login_flags rest = [False] \<and>
        (\<exists>lg. login_results rest = [lg] \<and>
           (\<forall>e'. lg = Inl e' \<longrightarrow> rpc_outcomes rest = [] \<and> r = Inl e') \<and>
           (\<forall>tok. lg = Inr tok \<longrightarrow> rpc_outcomes rest = [r])))"
    unfolding new by (elim disjE exE conjE) auto
  with tr first_def show ?thesis by blast
qed

text \<open>
  Claim C1 as stated counts two login invocations in the first case. A wrapped operation
  called on a newly constructed object, whose first attempt is answered by 401 and whose
  second attempt succeeds, returns the payload after one login invocation: the second
  invocation the tests count is the caller's own \<open>login()\<close> before the operation.
\<close>

theorem retry_controller_outcomes_counterexample:
  "(case get_accounts (mock_server []) example_monarch example_world of
      (r, self', w') \<Rightarrow>
        rpc_outcomes (w_trace w') =
          [Inl (TransportServerError ''KDD ERROR'' (Some 401)),
           Inr (accounts_response example_accounts_d)] \<and>
        r = Inr (accounts_response example_accounts_d) \<and>
        length (login_flags (w_trace w')) = 1)"
  by (simp add: eval_run mock_server_def answer_def)


text \<open>The caller's first \<open>login()\<close>, as in the tests and in \<open>main\<close>.\<close>

lemma example_first_login:
  "login (mock_server txs) True example_monarch example_world
     = (Inr (), logged_in_monarch, logged_in_world)"
  by (simp add: eval_run mock_server_def)

text \<open>The amended claim at \<open>get_transactions\<close> after the caller's login: the stale session
  is answered by 401, the retry succeeds, and the trace then holds the caller's login and
  the controller's one.\<close>

theorem retry_controller_outcomes_witness:
  "get_transactions (mock_server example_transactions)
     \<in> {get_categories (mock_server example_transactions),
        get_transactions (mock_server example_transactions),
        get_accounts (mock_server example_transactions),
        get_holdings (mock_server example_transactions) 102} \<and>
   (\<exists>r self' w'. get_transactions (mock_server example_transactions)
                    logged_in_monarch logged_in_world = (r, self', w') \<and>
      r = Inr (transactions_response example_transactions) \<and>
      login_flags (w_trace w') = [True, False] \<and>
      length (rpc_outcomes (w_trace w')) = 2)"
proof -
  let ?ev = "mock_server example_transactions"
  let ?e = "TransportServerError ''KDD ERROR'' (Some 401)"
  have h1: "get_transactions ?ev \<in> {get_categories ?ev, get_transactions ?ev,
        get_accounts ?ev, get_holdings ?ev 102}"
    by simp
  obtain r self' w' where run: "get_transactions ?ev logged_in_monarch logged_in_world = (r, self', w')"
    by (metis prod_cases3)
  from retry_controller_outcomes [OF h1 run] obtain req first rest where
    tr: "w_trace w' = w_trace logged_in_world @ RpcCall (cl_id (mm logged_in_monarch)) req first # rest" and
    ok: "\<And>e. first = Inl e \<and> unauthorized e \<Longrightarrow>
              login_flags rest = [False] \<and>
              (\<exists>lg. login_results rest = [lg] \<and>
                 (\<forall>tok. lg = Inr tok \<longrightarrow> rpc_outcomes rest = [r]))"
    by blast
  from run have "w_trace w' = w_trace logged_in_world @
      [RpcCall 0 (GetTransactions RECORD_LIMIT_TX ''2026-01-01'' ''2026-01-13'') (Inl ?e),
       LoginInvoked False, ClientCreated 1 (Some ''out/session.pickle''),
       ClientLogin 1 (LoginArgs ''blah'' ''blah'' True False ''blah'') (Inr ''FAKETOKEN''),
       Slept 0,
       RpcCall 1 (GetTransactions RECORD_LIMIT_TX ''2026-01-01'' ''2026-01-13'')
         (Inr (transactions_response example_transactions))]"
    by (auto simp: eval_run mock_server_def answer_def date_isoformat_def zpad_def
          str_nat.simps digit_char_def)
  with tr have first: "first = Inl ?e" and rest: "rest =
      [LoginInvoked False, ClientCreated 1 (Some ''out/session.pickle''),
       ClientLogin 1 (LoginArgs ''blah'' ''blah'' True False ''blah'') (Inr ''FAKETOKEN''),
       Slept 0,
       RpcCall 1 (GetTransactions RECORD_LIMIT_TX ''2026-01-01'' ''2026-01-13'')
         (Inr (transactions_response example_transactions))]"
    by auto
  from ok [of ?e] first rest
  have "r = Inr (transactions_response example_transactions)" "login_flags rest = [False]"
    by (simp_all add: unauthorized_def)
  with tr rest run h1 show ?thesis
    by (simp add: logged_in_world_def)
qed


text \<open>Client instances are numbered in the order of construction: the number of the
  instance a Monarch object holds is below the next free number. The constructor
  establishes this and every operation keeps it.\<close>

lemma Monarch_init_numbered:
  "Monarch_init u p t sf rb rbh rt rp d w = Inr (self, w') \<Longrightarrow> cl_id (mm self) < w_next_id w'"
  by (auto simp: Monarch_init_def init_mm_def log_event_def Let_def split: if_splits)

lemma login_numbered:
  assumes "login ev b self w = (res, self', w')" "cl_id (mm self) < w_next_id w"
  shows "cl_id (mm self') < w_next_id w'"
  using assms
  by (cases b) (auto simp: login_def init_mm_def log_event_def Let_def split: sum.splits)

lemma wrapped_numbered:
  assumes "f \<in> {get_categories ev, get_transactions ev, get_accounts ev, get_holdings ev account_id}"
      and "f self w = (r, self', w')" "cl_id (mm self) < w_next_id w"
  shows "cl_id (mm self') < w_next_id w'"
proof -
  from wrapped_is_retrying [OF assms(1)] obtain rq
    where "f = retrying ev (\<lambda>self w. mm_call ev (rq w) self w) (Suc 0)" by blast
  with assms(2) have "retrying ev (\<lambda>self w. mm_call ev (rq w) self w) (Suc 0) self w = (r, self', w')"
    by simp
  from wrapped_call_trace [OF this] assms(3) show ?thesis
    by (elim exE conjE disjE) simp_all
qed

text \<open>
  Claim C2. Whenever a wrapped operation makes its second attempt, the events of the call
  are, in this order: the failed first attempt on the old client instance, the invocation
  of \<open>login\<close> with \<open>use_saved_session\<close> disabled, the construction of a new client instance
  with the configured session file, the login of that new instance (which holds no token
  when the login starts, and is told not to use a saved session), the sleep, and the
  second attempt on the new instance. The new instance is not the old one, and it is the
  one the object holds afterwards.
\<close>

theorem retry_constructs_fresh_client:
  assumes "f \<in> {get_categories ev, get_transactions ev, get_accounts ev, get_holdings ev account_id}"
      and "f self w = (r, self', w')"
      and "w_trace w' = w_trace w @ new"
      and "length (rpc_outcomes new) = 2"
      and "cl_id (mm self) < w_next_id w"
  shows "\<exists>req1 e tok req2.
           new = [RpcCall (cl_id (mm self)) req1 (Inl e),
                  LoginInvoked False,
                  ClientCreated (w_next_id w) (configured_session_file self),
                  ClientLogin (w_next_id w) (LoginArgs (un self) (pw self) True False (token self))
                    (Inr tok),
                  Slept (retry_delay self),
                  RpcCall (w_next_id w) req2 r] \<and>
           unauthorized e \<and>
           w_next_id w \<noteq> cl_id (mm self) \<and>
           login_outcome ev
             (w_trace w @ [RpcCall (cl_id (mm self)) req1 (Inl e), LoginInvoked False,
                           ClientCreated (w_next_id w) (configured_session_file self)])
             \<lparr>cl_id = w_next_id w, cl_session_file = configured_session_file self,
              cl_token = None\<rparr>
             (LoginArgs (un self) (pw self) True False (token self)) = Inr tok \<and>
           mm self' = \<lparr>cl_id = w_next_id w, cl_session_file = configured_session_file self,
                       cl_token = Some tok\<rparr>"
proof -
  from wrapped_is_retrying [OF assms(1)] obtain rq
    where "f = retrying ev (\<lambda>self w. mm_call ev (rq w) self w) (Suc 0)" by blast
  with assms(2) have "retrying ev (\<lambda>self w. mm_call ev (rq w) self w) (Suc 0) self w = (r, self', w')"
    by simp
  from wrapped_call_trace [OF this] obtain new' where
    tr: "w_trace w' = w_trace w @ new'" and
    cases: "(new' = [RpcCall (cl_id (mm self)) (rq w) r])
    \<or> (\<exists>e e'.
          new' = [RpcCall (cl_id (mm self)) (rq w) (Inl e), LoginInvoked False,
                 ClientCreated (w_next_id w) (configured_session_file self),
                 ClientLogin (w_next_id w) (LoginArgs (un self) (pw self) True False (token self))
                   (Inl e')])
    \<or> (\<exists>e tok w3. unauthorized e \<and>
          new' = [RpcCall (cl_id (mm self)) (rq w) (Inl e), LoginInvoked False,
                 ClientCreated (w_next_id w) (configured_session_file self),
                 ClientLogin (w_next_id w) (LoginArgs (un self) (pw self) True False (token self))
                   (Inr tok),
                 Slept (retry_delay self),
                 RpcCall (w_next_id w) (rq w3) r] \<and>
          self' = self\<lparr>mm := \<lparr>cl_id = w_next_id w,
                                cl_session_file = configured_session_file self,
                                cl_token = Some tok\<rparr>\<rparr> \<and>
          login_outcome ev
            (w_trace w @ [RpcCall (cl_id (mm self)) (rq w) (Inl e), LoginInvoked False,
                          ClientCreated (w_next_id w) (configured_session_file self)])
            \<lparr>cl_id = w_next_id w, cl_session_file = configured_session_file self,
             cl_token = None\<rparr>
            (LoginArgs (un self) (pw self) True False (token self)) = Inr tok)"
    by blast
  from tr assms(3) have eq: "new' = new" by simp
  from cases show ?thesis
  proof (elim disjE exE conjE)
    assume "new' = [RpcCall (cl_id (mm self)) (rq w) r]"
    with eq assms(4) show ?thesis by auto
  next
    fix e e'
    assume "new' = [RpcCall (cl_id (mm self)) (rq w) (Inl e), LoginInvoked False,
                 ClientCreated (w_next_id w) (configured_session_file self),
                 ClientLogin (w_next_id w) (LoginArgs (un self) (pw self) True False (token self))
                   (Inl e')]"
    with eq assms(4) show ?thesis by auto
  next
    fix e tok w3
    assume "unauthorized e"
     "new' = [RpcCall (cl_id (mm self)) (rq w) (Inl e), LoginInvoked False,
                 ClientCreated (w_next_id w) (configured_session_file self),
                 ClientLogin (w_next_id w) (LoginArgs (un self) (pw self) True False (token self))
                   (Inr tok),
                 Slept (retry_delay self),
                 RpcCall (w_next_id w) (rq w3) r]"
     "self' = self\<lparr>mm := \<lparr>cl_id = w_next_id w,
                                cl_session_file = configured_session_file self,
                                cl_token = Some tok\<rparr>\<rparr>"
     "login_outcome ev
            (w_trace w @ [RpcCall (cl_id (mm self)) (rq w) (Inl e), LoginInvoked False,
                          ClientCreated (w_next_id w) (configured_session_file self)])
            \<lparr>cl_id = w_next_id w, cl_session_file = configured_session_file self,
             cl_token = None\<rparr>
            (LoginArgs (un self) (pw self) True False (token self)) = Inr tok"
    moreover from assms(5) have "w_next_id w \<noteq> cl_id (mm self)" by simp
    ultimately show ?thesis using eq by simp
  qed
qed

text \<open>Claim C2 at \<open>get_accounts\<close> with a stale session: the two attempts are made on
  instance 0 and on the new instance 1.\<close>

theorem retry_constructs_fresh_client_witness:
  "cl_id (mm logged_in_monarch) < w_next_id logged_in_world \<and>
   (\<exists>r self' w'. get_accounts (mock_server []) logged_in_monarch logged_in_world = (r, self', w') \<and>
      rpc_clients (w_trace w') = [0, 1] \<and>
      mm self' = \<lparr>cl_id = 1, cl_session_file = Some ''out/session.pickle'',
                  cl_token = Some ''FAKETOKEN''\<rparr>)"
proof -
  let ?ev = "mock_server []"
  have h1: "get_accounts ?ev \<in> {get_categories ?ev, get_transactions ?ev,
        get_accounts ?ev, get_holdings ?ev 102}"
    by simp
  obtain r self' w' where run: "get_accounts ?ev logged_in_monarch logged_in_world = (r, self', w')"
    by (metis prod_cases3)
  define new where "new =
      [RpcCall 0 GetAccounts (Inl (TransportServerError ''KDD ERROR'' (Some 401))),
       LoginInvoked False, ClientCreated 1 (Some ''out/session.pickle''),
       ClientLogin 1 (LoginArgs ''blah'' ''blah'' True False ''blah'') (Inr ''FAKETOKEN''),
       Slept 0,
       RpcCall 1 GetAccounts (Inr (accounts_response example_accounts_d))]"
  from run have h3: "w_trace w' = w_trace logged_in_world @ new"
    by (auto simp: eval_run mock_server_def answer_def new_def)
  have h4: "length (rpc_outcomes new) = 2"
    by (simp add: new_def)
  have h5: "cl_id (mm logged_in_monarch) < w_next_id logged_in_world"
    by (simp add: logged_in_monarch_def logged_in_world_def)
  from retry_constructs_fresh_client [OF h1 run h3 h4 h5]
  obtain tok where "mm self' = \<lparr>cl_id = w_next_id logged_in_world,
        cl_session_file = configured_session_file logged_in_monarch, cl_token = Some tok\<rparr>"
    "login_outcome ?ev
             (w_trace logged_in_world @ [RpcCall (cl_id (mm logged_in_monarch)) GetAccounts
                 (Inl (TransportServerError ''KDD ERROR'' (Some 401))), LoginInvoked False,
                 ClientCreated (w_next_id logged_in_world)
                   (configured_session_file logged_in_monarch)])
             \<lparr>cl_id = w_next_id logged_in_world,
              cl_session_file = configured_session_file logged_in_monarch, cl_token = None\<rparr>
             (LoginArgs (un logged_in_monarch) (pw logged_in_monarch) True False
                (token logged_in_monarch)) = Inr tok"
    by (auto simp: new_def)
  then have "mm self' = \<lparr>cl_id = 1, cl_session_file = Some ''out/session.pickle'',
                  cl_token = Some ''FAKETOKEN''\<rparr>"
    by (simp add: logged_in_monarch_def logged_in_world_def example_monarch_def
          configured_session_file_def mock_server_def)
  moreover from h3 have "rpc_clients (w_trace w') = [0, 1]"
    by (simp add: new_def logged_in_world_def)
  ultimately show ?thesis using run h5 by simp
qed

section \<open>CSV files\<close>

lemma write_rows_ok:
  assumes "\<forall>x\<in>set xs. dict_to_list fieldnames ig (mk x) = Inr (line x)"
  shows "write_rows fieldnames ig (map mk xs) f
           = (None, f @ concat (map (\<lambda>x. csv_writerow (line x)) xs))"
  using assms
  by (induction xs arbitrary: f) (simp_all add: DictWriter_writerow_def)

lemma header_dict_lookup:
  "a \<in> set ks \<Longrightarrow> map_of (map (\<lambda>k. (k, CStr k)) ks) a = Some (CStr a)"
  by (induction ks) auto

lemma writeheader_ok:
  "DictWriter_writeheader fieldnames ig f = (None, f @ csv_writerow fieldnames)"
proof -
  have "map (\<lambda>key. case map_of (map (\<lambda>k. (k, CStr k)) fieldnames) key of
                     None \<Rightarrow> '''' | Some v \<Rightarrow> cell_text v) fieldnames = fieldnames"
    by (rule map_idI) (simp add: header_dict_lookup cell_text_def)
  then have "dict_to_list fieldnames ig (map (\<lambda>k. (k, CStr k)) fieldnames) = Inr fieldnames"
    by (auto simp: dict_to_list_def comp_def)
  then show ?thesis
    by (simp add: DictWriter_writeheader_def DictWriter_writerow_def)
qed

lemma write_table_ok:
  assumes "\<forall>x\<in>set xs. dict_to_list fieldnames ig (mk x) = Inr (line x)"
  shows "write_table fieldnames ig with_header (map mk xs) f =
           (None, f @ (if with_header then csv_writerow fieldnames else []) @
                  concat (map (\<lambda>x. csv_writerow (line x)) xs))"
  using write_rows_ok [OF assms]
  by (simp add: write_table_def writeheader_ok)

lemma Account_dict_to_list:
  "dict_to_list BALANCES_HEADER True (Account_dict a) =
     Inr [acc_account a, str_decimal (acc_balance a), acc_date_eastern a, acc_datetime a]"
  by (simp add: dict_to_list_def BALANCES_HEADER_def Account_dict_def cell_text_def)

lemma Holding_dict_to_list:
  "dict_to_list PORTFOLIO_HEADER False (Holding_dict h) =
     Inr [(case h_account h of None \<Rightarrow> '''' | Some n \<Rightarrow> n), h_ticker h, h_shares h,
          h_price h, h_cost h]"
  by (simp add: dict_to_list_def PORTFOLIO_HEADER_def Holding_dict_def cell_text_def opt_cell_def
      split: option.splits)

lemma Transaction_dict_to_list:
  "dict_to_list TRANSACTIONS_HEADER False (Transaction_dict t) =
     Inr [tx_date t, tx_merchant t, tx_category t, tx_group t, tx_account t,
          (case tx_notes t of None \<Rightarrow> '''' | Some n \<Rightarrow> n), str_decimal (tx_amount t)]"
  by (simp add: dict_to_list_def TRANSACTIONS_HEADER_def Transaction_dict_def cell_text_def
      opt_cell_def split: option.splits)

lemma write_balances_table:
  "write_table BALANCES_HEADER True with_header (map Account_dict accounts) f =
     (None, f @ (if with_header then csv_writerow BALANCES_HEADER else []) @
            concat (map balance_line accounts))"
  unfolding balance_line_def
  by (rule write_table_ok) (simp add: Account_dict_to_list)

lemma write_portfolio_table:
  "write_table PORTFOLIO_HEADER False with_header (map Holding_dict hs) f =
     (None, f @ (if with_header then csv_writerow PORTFOLIO_HEADER else []) @
            concat (map holding_line hs))"
  unfolding holding_line_def
  by (rule write_table_ok) (simp add: Holding_dict_to_list)

lemma write_transactions_table:
  "write_table TRANSACTIONS_HEADER False with_header (map Transaction_dict ts) f =
     (None, f @ (if with_header then csv_writerow TRANSACTIONS_HEADER else []) @
            concat (map transaction_line ts))"
  unfolding transaction_line_def
  by (rule write_table_ok) (simp add: Transaction_dict_to_list)

subsection \<open>Counting the records of a written file\<close>

lemma count_records_escaped:
  "count_records True (concat (map (\<lambda>c. if c = CHR 0x22 then [c, c] else [c]) s) @ CHR 0x22 # rest)
     = count_records False rest"
  by (induction s) simp_all

lemma count_records_quote_field:
  "count_records False (quote_field s @ rest) = count_records False rest"
  using count_records_escaped [of s rest] by (simp add: quote_field_def)

lemma count_records_join:
  "count_records False (join_fields (map quote_field fs) @ CHR 0x0D # CHR 0x0A # rest)
     = Suc (count_records False rest)"
proof (induction fs rule: join_fields.induct)
  case 1
  show ?case by simp
next
  case (2 f)
  show ?case by (simp add: count_records_quote_field)
next
  case (3 f v va)
  then show ?case by (simp add: count_records_quote_field)
qed

lemma count_records_writerow:
  "count_records False (csv_writerow fs @ rest) = Suc (count_records False rest)"
  using count_records_join [of fs rest] by (simp add: csv_writerow_def)

lemma count_records_rows:
  "count_records False (concat (map (\<lambda>x. csv_writerow (line x)) xs) @ rest)
     = length xs + count_records False rest"
  by (induction xs) (simp_all add: count_records_writerow)

lemma csv_line_count_table:
  "csv_line_count (csv_writerow header @ concat (map (\<lambda>x. csv_writerow (line x)) xs))
     = Suc (length xs)"
  using count_records_rows [of line xs "[]"]
  by (simp add: csv_line_count_def count_records_writerow)

subsection \<open>The balances history file\<close>

lemma csv_line_count_balances:
  "csv_line_count (csv_writerow header @ concat (map balance_line xs)) = Suc (length xs)"
  unfolding balance_line_def by (rule csv_line_count_table)

lemma write_balances_history_file:
  assumes "write_balances_history self accounts w = (r, w')"
  shows "r = Inr () \<and>
         w_files w' (fn_balance_history_report self) =
           Some (case w_files w (fn_balance_history_report self) of
                   None \<Rightarrow> csv_writerow BALANCES_HEADER @ concat (map balance_line accounts)
                 | Some old \<Rightarrow>
                     (if old = [] then csv_writerow BALANCES_HEADER else old)
                       @ concat (map balance_line accounts))"
  using assms
  by (auto simp: write_balances_history_def open_a_def close_file_def write_balances_table
        log_event_def Let_def split: option.splits)

text \<open>
  Claim C8. When the history file is absent or empty, a run of the balances-history writer
  with \<open>N\<close> account rows leaves the header line followed by the \<open>N\<close> data lines, that
  is \<open>N + 1\<close> records; a second run with \<open>N\<close> rows on the file as the first run left it
  appends \<open>N\<close> data lines and no header, \<open>2N + 1\<close> records in all. Records are counted
  as a CSV reader does (line ends outside quoted fields).
\<close>

theorem balances_history_lines:
  assumes "w_files w (fn_balance_history_report self) = None \<or>
           w_files w (fn_balance_history_report self) = Some []"
      and "write_balances_history self accounts1 w = (r1, w1)"
      and "w_files w1' (fn_balance_history_report self) = w_files w1 (fn_balance_history_report self)"
      and "write_balances_history self accounts2 w1' = (r2, w2)"
      and "length accounts1 = N" "length accounts2 = N"
  shows "r1 = Inr () \<and> r2 = Inr () \<and>
         w_files w1 (fn_balance_history_report self) =
           Some (csv_writerow BALANCES_HEADER @ concat (map balance_line accounts1)) \<and>
         csv_line_count (csv_writerow BALANCES_HEADER @ concat (map balance_line accounts1))
           = N + 1 \<and>
         w_files w2 (fn_balance_history_report self) =
           Some (csv_writerow BALANCES_HEADER @ concat (map balance_line accounts1)
                   @ concat (map balance_line accounts2)) \<and>
         csv_line_count (csv_writerow BALANCES_HEADER @ concat (map balance_line accounts1)
                   @ concat (map balance_line accounts2)) = 2 * N + 1"
proof -
  let ?p = "fn_balance_history_report self"
  let ?H = "csv_writerow BALANCES_HEADER"
  from write_balances_history_file [OF assms(2)] assms(1)
  have r1: "r1 = Inr ()" and f1: "w_files w1 ?p = Some (?H @ concat (map balance_line accounts1))"
    by auto
  have ne: "?H @ concat (map balance_line accounts1) \<noteq> []"
    by (simp add: csv_writerow_def)
  from write_balances_history_file [OF assms(4)] assms(3) f1 ne
  have r2: "r2 = Inr ()" and f2: "w_files w2 ?p =
      Some (?H @ concat (map balance_line accounts1) @ concat (map balance_line accounts2))"
    by auto
  have c1: "csv_line_count (?H @ concat (map balance_line accounts1)) = N + 1"
    using assms(5) by (simp add: csv_line_count_balances)
  have "csv_line_count (?H @ concat (map balance_line (accounts1 @ accounts2)))
          = Suc (length (accounts1 @ accounts2))"
    by (rule csv_line_count_balances)
  with assms(5,6) have c2: "csv_line_count (?H @ concat (map balance_line accounts1)
                   @ concat (map balance_line accounts2)) = 2 * N + 1"
    by simp
  from r1 r2 f1 f2 c1 c2 show ?thesis by blast
qed

text \<open>Claim C8 at two runs with the two example accounts, starting without a file.\<close>

theorem balances_history_lines_witness:
  "w_files example_world (fn_balance_history_report example_monarch) = None \<and>
   (\<exists>w1 w2 text.
      write_balances_history example_monarch example_accounts example_world = (Inr (), w1) \<and>
      write_balances_history example_monarch example_accounts w1 = (Inr (), w2) \<and>
      w_files w2 ''out/rbh.csv'' = Some text \<and> csv_line_count text = 5)"
proof -
  have h1: "w_files example_world (fn_balance_history_report example_monarch) = None \<or>
            w_files example_world (fn_balance_history_report example_monarch) = Some []"
    by (simp add: example_world_def)
  obtain r1 w1 where run1:
    "write_balances_history example_monarch example_accounts example_world = (r1, w1)"
    by (metis prod.exhaust)
  obtain r2 w2 where run2:
    "write_balances_history example_monarch example_accounts w1 = (r2, w2)"
    by (metis prod.exhaust)
  have h5: "length example_accounts = 2"
    by (simp add: example_accounts_def)
  from balances_history_lines [OF h1 run1 refl run2 h5 h5]
  have "r1 = Inr ()" "r2 = Inr ()"
    "w_files w2 (fn_balance_history_report example_monarch) =
           Some (csv_writerow BALANCES_HEADER @ concat (map balance_line example_accounts)
                   @ concat (map balance_line example_accounts))"
    "csv_line_count (csv_writerow BALANCES_HEADER @ concat (map balance_line example_accounts)
                   @ concat (map balance_line example_accounts)) = 2 * 2 + 1"
    by simp_all
  with run1 run2 show ?thesis
    by (simp add: example_monarch_def example_world_def)
qed

section \<open>The transactions report\<close>

lemma successful_calls_append [simp]:
  "successful_calls (xs @ ys) = successful_calls xs @ successful_calls ys"
  by (induction xs) (auto split: event.splits sum.splits)

text \<open>A wrapped operation opens no file and leaves the files as they are.\<close>

lemma wrapped_no_files:
  assumes "f \<in> {get_categories ev, get_transactions ev, get_accounts ev, get_holdings ev account_id}"
      and "f self w = (r, self', w')"
  shows "w_files w' = w_files w \<and> files_opened (w_trace w') = files_opened (w_trace w)"
proof -
  from wrapped_is_retrying [OF assms(1)] obtain rq
    where "f = retrying ev (\<lambda>self w. mm_call ev (rq w) self w) (Suc 0)" by blast
  with assms(2) have "retrying ev (\<lambda>self w. mm_call ev (rq w) self w) (Suc 0) self w = (r, self', w')"
    by simp
  from wrapped_call_trace [OF this] show ?thesis
    by (elim exE conjE disjE) simp_all
qed

text \<open>
  Claim C4. When a transaction of the response refers to a category whose key the lookup
  lacks, the mapping of the whole response is an error: no rows are returned, and no
  group is made up. When the lookup and the response are the ones \<open>report_transactions\<close>
  fetched, the report ends with that error right after the second fetch: no file is
  opened and the files are as they were.
\<close>

theorem unresolved_category_fails_batch:
  assumes "r_allTransactions txs = Some txl" "tl_results txl = Some rs"
      and "t \<in> set rs" "category_key t = Some k" "catmap k = None"
  shows "(\<exists>e. TransactionsQuerySchema_load catmap txs = Inl e) \<and>
         (get_categories ev self w = (Inr cats, self1, w1) \<and>
          CategoryQuerySchema_load cats = Inr catmap \<and>
          get_transactions ev self1 w1 = (Inr txs, self2, w2) \<longrightarrow>
            (\<exists>e. report_transactions ev self w = (Inl e, self2, w2)) \<and>
            w_files w2 = w_files w \<and>
            files_opened (w_trace w2) = files_opened (w_trace w))"
proof -
  from Transaction_init_missing [of t k catmap] assms(4,5)
  obtain e0 where "Transaction_init t catmap = Inl e0" by blast
  from list_comprehension_Inl [of t rs "\<lambda>row. Transaction_init row catmap", OF assms(3) this]
  obtain e where "list_comprehension (\<lambda>row. Transaction_init row catmap) rs = Inl e" by blast
  with assms(1,2) have load: "TransactionsQuerySchema_load catmap txs = Inl e"
    by (simp add: TransactionsQuerySchema_load_def)
  have "(\<exists>e. report_transactions ev self w = (Inl e, self2, w2)) \<and>
        w_files w2 = w_files w \<and> files_opened (w_trace w2) = files_opened (w_trace w)"
    if c: "get_categories ev self w = (Inr cats, self1, w1)"
      and m: "CategoryQuerySchema_load cats = Inr catmap"
      and g: "get_transactions ev self1 w1 = (Inr txs, self2, w2)"
  proof -
    have "report_transactions ev self w = (Inl e, self2, w2)"
      using c m g load by (simp add: report_transactions_def)
    moreover from wrapped_no_files [of "get_categories ev" ev 0, OF _ c]
    have "w_files w1 = w_files w \<and> files_opened (w_trace w1) = files_opened (w_trace w)"
      by simp
    moreover from wrapped_no_files [of "get_transactions ev" ev 0, OF _ g]
    have "w_files w2 = w_files w1 \<and> files_opened (w_trace w2) = files_opened (w_trace w1)"
      by simp
    ultimately show ?thesis by auto
  qed
  with load show ?thesis by blast
qed

text \<open>Unfolding these evaluates a wrapped operation on any object and world.\<close>

lemmas eval_retry = get_accounts_def get_categories_def get_transactions_def get_holdings_def
  retrying_unfold mm_call_def login_def init_mm_def log_event_def Let_def
  retry_predicate_def is_exception_401_def is_TransportServerError_def

text \<open>Claim C4 at a run whose transactions refer to category 99, which the category list
  does not have: the report fails and no file exists afterwards.\<close>

theorem unresolved_category_fails_batch_witness:
  "category_key (unresolved_transactions ! 1) = Some ''99'' \<and>
   (\<exists>e self' w'. report_transactions (mock_server unresolved_transactions)
                    logged_in_monarch logged_in_world = (Inl e, self', w') \<and>
      w_files w' = Map.empty \<and> files_opened (w_trace w') = [])"
proof -
  let ?ev = "mock_server unresolved_transactions"
  let ?txs = "transactions_response unresolved_transactions"
  have h1: "r_allTransactions ?txs = Some (TransactionListD (Some unresolved_transactions))"
    by (simp add: transactions_response_def)
  have h2: "tl_results (TransactionListD (Some unresolved_transactions)) = Some unresolved_transactions"
    by simp
  have h3: "unresolved_transactions ! 1 \<in> set unresolved_transactions"
    by (simp add: unresolved_transactions_def)
  have h4: "category_key (unresolved_transactions ! 1) = Some ''99''"
    by (simp add: unresolved_transactions_def category_key_def eval_str)
  obtain cats self1 w1 where c: "get_categories ?ev logged_in_monarch logged_in_world = (cats, self1, w1)"
    by (metis prod_cases3)
  then have cats: "cats = Inr (categories_response example_categories)"
    and self1: "mm self1 = \<lparr>cl_id = 1, cl_session_file = Some ''out/session.pickle'',
                  cl_token = Some ''FAKETOKEN''\<rparr>"
    by (auto simp: eval_retry mock_server_def answer_def logged_in_monarch_def
          logged_in_world_def example_monarch_def)
  obtain catmap where m: "CategoryQuerySchema_load (categories_response example_categories) = Inr catmap"
    and none: "catmap ''99'' = None"
    by (simp add: CategoryQuerySchema_load_def make_map_def categories_response_def
          example_categories_def eval_str)
  obtain txs self2 w2 where g: "get_transactions ?ev self1 w1 = (txs, self2, w2)"
    by (metis prod_cases3)
  with self1 have txs: "txs = Inr ?txs"
    by (auto simp: eval_retry mock_server_def answer_def)
  from unresolved_category_fails_batch [where catmap = catmap and k = "''99''"
      and t = "unresolved_transactions ! 1" and ev = ?ev and self = logged_in_monarch
      and w = logged_in_world and cats = "categories_response example_categories"
      and ?self1.0 = self1 and ?w1.0 = w1 and ?self2.0 = self2 and ?w2.0 = w2,
      OF h1 h2 h3 h4 none]
    c cats m g txs
  have "(\<exists>e. report_transactions ?ev logged_in_monarch logged_in_world = (Inl e, self2, w2)) \<and>
        w_files w2 = w_files logged_in_world \<and>
        files_opened (w_trace w2) = files_opened (w_trace logged_in_world)"
    by simp
  with h4 show ?thesis
    by (auto simp: logged_in_world_def)
qed

section \<open>The portfolio report\<close>

lemma get_holdings_trace:
  assumes "get_holdings ev aid self w = (r, self1, w1)"
  shows "\<exists>new. w_trace w1 = w_trace w @ new \<and> w_files w1 = w_files w \<and> files_opened new = [] \<and>
           fn_portfolio_report self1 = fn_portfolio_report self \<and>
           set (rpc_requests new) = {GetAccountHoldings aid} \<and>
           successful_calls new = (case r of Inl e \<Rightarrow> [] | Inr h \<Rightarrow> [(GetAccountHoldings aid, h)])"
proof -
  have "retrying ev (\<lambda>self w. mm_call ev ((\<lambda>_. GetAccountHoldings aid) w) self w) (Suc 0) self w
          = (r, self1, w1)"
    using assms by (simp add: get_holdings_def)
  from wrapped_call_trace [OF this] show ?thesis
    by (elim exE conjE disjE) (auto split: sum.splits)
qed

lemma portfolio_loop_requests:
  assumes "portfolio_loop ev accounts acc0 self w = (r, self', w')"
  shows "\<exists>new. w_trace w' = w_trace w @ new \<and> w_files w' = w_files w \<and> files_opened new = [] \<and>
           fn_portfolio_report self' = fn_portfolio_report self \<and>
           set (rpc_requests new) \<subseteq>
             (\<lambda>a. GetAccountHoldings (acc_id a)) ` {a \<in> set accounts. acc_holdingsCount a > 0}"
  using assms
proof (induction accounts arbitrary: acc0 self w)
  case Nil
  then show ?case by simp
next
  case (Cons a rest)
  show ?case
  proof (cases "acc_holdingsCount a > 0")
    case False
    with Cons.prems have "portfolio_loop ev rest acc0 self w = (r, self', w')" by simp
    from Cons.IH [OF this] False show ?thesis by auto
  next
    case True
    obtain r1 self1 w1 where g: "get_holdings ev (acc_id a) self w = (r1, self1, w1)"
      by (metis prod_cases3)
    from get_holdings_trace [OF g] obtain new1 where
      n1: "w_trace w1 = w_trace w @ new1" "w_files w1 = w_files w" "files_opened new1 = []"
          "fn_portfolio_report self1 = fn_portfolio_report self"
          "set (rpc_requests new1) = {GetAccountHoldings (acc_id a)}"
      by blast
    show ?thesis
    proof (cases "\<exists>h hq. r1 = Inr h \<and> HoldingsQuerySchema_load h = Inr hq")
      case False
      with Cons.prems True g have "self' = self1" "w' = w1"
        by (auto split: sum.splits)
      with n1 True show ?thesis by auto
    next
      case ex: True
      then obtain h hq where h: "r1 = Inr h" "HoldingsQuerySchema_load h = Inr hq" by blast
      with Cons.prems True g
      have "portfolio_loop ev rest (acc0 @ backfill_account a hq) self1 w1 = (r, self', w')"
        by simp
      from Cons.IH [OF this] obtain new2 where
        n2: "w_trace w' = w_trace w1 @ new2" "w_files w' = w_files w1" "files_opened new2 = []"
            "fn_portfolio_report self' = fn_portfolio_report self1"
            "set (rpc_requests new2) \<subseteq>
               (\<lambda>a. GetAccountHoldings (acc_id a)) ` {a \<in> set rest. acc_holdingsCount a > 0}"
        by blast
      have split: "{x \<in> set (a # rest). acc_holdingsCount x > 0}
                     = insert a {x \<in> set rest. acc_holdingsCount x > 0}"
        using True by auto
      have "w_trace w' = w_trace w @ (new1 @ new2)" using n1 n2 by simp
      moreover have "set (rpc_requests (new1 @ new2)) \<subseteq>
          (\<lambda>x. GetAccountHoldings (acc_id x)) ` {x \<in> set (a # rest). acc_holdingsCount x > 0}"
        unfolding split using n1 n2 by auto
      moreover have "files_opened (new1 @ new2) = []" using n1 n2 by simp
      ultimately show ?thesis using n1 n2 by (intro exI [of _ "new1 @ new2"]) simp
    qed
  qed
qed

lemma portfolio_loop_success:
  assumes "portfolio_loop ev accounts acc0 self w = (Inr all_holdings, self', w')"
  shows "\<exists>new. w_trace w' = w_trace w @ new \<and>
           set (rpc_requests new) =
             (\<lambda>a. GetAccountHoldings (acc_id a)) ` {a \<in> set accounts. acc_holdingsCount a > 0} \<and>
           map fst (successful_calls new) =
             map (\<lambda>a. GetAccountHoldings (acc_id a)) (filter (\<lambda>a. acc_holdingsCount a > 0) accounts) \<and>
           (\<forall>c\<in>set (successful_calls new). \<exists>hs. HoldingsQuerySchema_load (snd c) = Inr hs) \<and>
           all_holdings = acc0 @ concat (map (\<lambda>(a, c). backfill_account a (holdings_of (snd c)))
                (zip (filter (\<lambda>a. acc_holdingsCount a > 0) accounts) (successful_calls new)))"
  using assms
proof (induction accounts arbitrary: acc0 self w)
  case Nil
  then show ?case by simp
next
  case (Cons a rest)
  show ?case
  proof (cases "acc_holdingsCount a > 0")
    case False
    with Cons.prems have "portfolio_loop ev rest acc0 self w = (Inr all_holdings, self', w')" by simp
    from Cons.IH [OF this] False show ?thesis by auto
  next
    case True
    obtain r1 self1 w1 where g: "get_holdings ev (acc_id a) self w = (r1, self1, w1)"
      by (metis prod_cases3)
    with Cons.prems True obtain h hq where h: "r1 = Inr h" "HoldingsQuerySchema_load h = Inr hq"
      and rec: "portfolio_loop ev rest (acc0 @ backfill_account a hq) self1 w1
                  = (Inr all_holdings, self', w')"
      by (auto split: sum.splits)
    from get_holdings_trace [OF g] h obtain new1 where
      n1: "w_trace w1 = w_trace w @ new1"
          "set (rpc_requests new1) = {GetAccountHoldings (acc_id a)}"
          "successful_calls new1 = [(GetAccountHoldings (acc_id a), h)]"
      by auto
    from Cons.IH [OF rec] obtain new2 where
      n2: "w_trace w' = w_trace w1 @ new2"
          "set (rpc_requests new2) =
             (\<lambda>a. GetAccountHoldings (acc_id a)) ` {a \<in> set rest. acc_holdingsCount a > 0}"
          "map fst (successful_calls new2) =
             map (\<lambda>a. GetAccountHoldings (acc_id a)) (filter (\<lambda>a. acc_holdingsCount a > 0) rest)"
          "\<forall>c\<in>set (successful_calls new2). \<exists>hs. HoldingsQuerySchema_load (snd c) = Inr hs"
          "all_holdings = (acc0 @ backfill_account a hq) @
             concat (map (\<lambda>(a, c). backfill_account a (holdings_of (snd c)))
                (zip (filter (\<lambda>a. acc_holdingsCount a > 0) rest) (successful_calls new2)))"
      by blast
    have split: "{x \<in> set (a # rest). acc_holdingsCount x > 0}
                   = insert a {x \<in> set rest. acc_holdingsCount x > 0}"
      using True by auto
    have "w_trace w' = w_trace w @ (new1 @ new2)" using n1 n2 by simp
    moreover have "set (rpc_requests (new1 @ new2)) =
          (\<lambda>x. GetAccountHoldings (acc_id x)) ` {x \<in> set (a # rest). acc_holdingsCount x > 0}"
      unfolding split using n1 n2 by simp
    moreover have "map fst (successful_calls (new1 @ new2)) =
             map (\<lambda>a. GetAccountHoldings (acc_id a))
               (filter (\<lambda>a. acc_holdingsCount a > 0) (a # rest))"
      using n1 n2 True by simp
    moreover have "\<forall>c\<in>set (successful_calls (new1 @ new2)).
          \<exists>hs. HoldingsQuerySchema_load (snd c) = Inr hs"
      using n1 n2 h by simp
    moreover have "all_holdings = acc0 @
             concat (map (\<lambda>(a, c). backfill_account a (holdings_of (snd c)))
                (zip (filter (\<lambda>a. acc_holdingsCount a > 0) (a # rest))
                     (successful_calls (new1 @ new2))))"
      using n1 n2 True h by (simp add: holdings_of_def)
    ultimately show ?thesis by blast
  qed
qed


lemma write_portfolio_file:
  "write_portfolio self hs w =
     (Inr (), w\<lparr>w_trace := w_trace w @ [FileOpened (fn_portfolio_report self) False],
               w_files := (w_files w)(fn_portfolio_report self \<mapsto>
                  csv_writerow PORTFOLIO_HEADER @ concat (map holding_line hs))\<rparr>)"
  by (simp add: write_portfolio_def open_w_def close_file_def write_portfolio_table log_event_def)

lemma backfill_account_field:
  "h \<in> set (backfill_account a hs) \<Longrightarrow> h_account h = Some (acc_account a)"
  by (auto simp: backfill_account_def)

text \<open>
  Claim C5, as amended. For every account list, the RPC calls of \<open>report_portfolio\<close> are
  holdings fetches for accounts whose holdings count is positive, and for no other
  account. When the report succeeds, the fetched accounts are exactly those with a
  positive count, each has exactly one successful fetch, in the order of the account list,
  and the portfolio file holds the header and then, for each such account in turn, the
  rows its fetched response maps to, every one with the account field set to that
  account's display name.
\<close>

theorem portfolio_queries_and_backfill:
  assumes "report_portfolio ev accounts self w = (r, self', w')"
  shows "\<exists>new. w_trace w' = w_trace w @ new \<and>
           set (rpc_requests new) \<subseteq>
             (\<lambda>a. GetAccountHoldings (acc_id a)) ` {a \<in> set accounts. acc_holdingsCount a > 0} \<and>
           (r = Inr () \<longrightarrow>
              set (rpc_requests new) =
                (\<lambda>a. GetAccountHoldings (acc_id a)) ` {a \<in> set accounts. acc_holdingsCount a > 0} \<and>
              map fst (successful_calls new) =
                map (\<lambda>a. GetAccountHoldings (acc_id a))
                    (filter (\<lambda>a. acc_holdingsCount a > 0) accounts) \<and>
              w_files w' (fn_portfolio_report self) =
                Some (csv_writerow PORTFOLIO_HEADER @
                      concat (map holding_line
                        (concat (map (\<lambda>(a, c). backfill_account a (holdings_of (snd c)))
                           (zip (filter (\<lambda>a. acc_holdingsCount a > 0) accounts)
                                (successful_calls new)))))) \<and>
              (\<forall>(a, c)\<in>set (zip (filter (\<lambda>a. acc_holdingsCount a > 0) accounts)
                                 (successful_calls new)).
                 \<forall>h\<in>set (backfill_account a (holdings_of (snd c))).
                   h_account h = Some (acc_account a)))"
proof -
  obtain r1 self1 w1 where loop: "portfolio_loop ev accounts [] self w = (r1, self1, w1)"
    by (metis prod_cases3)
  from portfolio_loop_requests [OF loop] obtain new1 where
    n1: "w_trace w1 = w_trace w @ new1" "fn_portfolio_report self1 = fn_portfolio_report self"
        "set (rpc_requests new1) \<subseteq>
           (\<lambda>a. GetAccountHoldings (acc_id a)) ` {a \<in> set accounts. acc_holdingsCount a > 0}"
    by blast
  show ?thesis
  proof (cases r1)
    case (Inl e)
    with assms(1) loop have "r = Inl e" "w' = w1"
      by (simp_all add: report_portfolio_def)
    with n1 show ?thesis by auto
  next
    case (Inr all_holdings)
    with assms(1) loop have w': "w' = w1\<lparr>w_trace := w_trace w1 @ [FileOpened (fn_portfolio_report self1) False],
               w_files := (w_files w1)(fn_portfolio_report self1 \<mapsto>
                  csv_writerow PORTFOLIO_HEADER @ concat (map holding_line all_holdings))\<rparr>"
      by (auto simp: report_portfolio_def write_portfolio_file)
    from loop Inr have "portfolio_loop ev accounts [] self w = (Inr all_holdings, self1, w1)"
      by simp
    from portfolio_loop_success [OF this] obtain new2 where
      n2: "w_trace w1 = w_trace w @ new2"
          "set (rpc_requests new2) =
             (\<lambda>a. GetAccountHoldings (acc_id a)) ` {a \<in> set accounts. acc_holdingsCount a > 0}"
          "map fst (successful_calls new2) =
             map (\<lambda>a. GetAccountHoldings (acc_id a)) (filter (\<lambda>a. acc_holdingsCount a > 0) accounts)"
          "all_holdings = [] @ concat (map (\<lambda>(a, c). backfill_account a (holdings_of (snd c)))
                (zip (filter (\<lambda>a. acc_holdingsCount a > 0) accounts) (successful_calls new2)))"
      by blast
    let ?new = "new2 @ [FileOpened (fn_portfolio_report self1) False]"
    have "w_trace w' = w_trace w @ ?new" using w' n2 by simp
    moreover have "set (rpc_requests ?new) =
        (\<lambda>a. GetAccountHoldings (acc_id a)) ` {a \<in> set accounts. acc_holdingsCount a > 0}"
      using n2 by simp
    moreover have "map fst (successful_calls ?new) =
                map (\<lambda>a. GetAccountHoldings (acc_id a))
                    (filter (\<lambda>a. acc_holdingsCount a > 0) accounts)"
      using n2 by simp
    moreover have "w_files w' (fn_portfolio_report self) =
                Some (csv_writerow PORTFOLIO_HEADER @
                      concat (map holding_line
                        (concat (map (\<lambda>(a, c). backfill_account a (holdings_of (snd c)))
                           (zip (filter (\<lambda>a. acc_holdingsCount a > 0) accounts)
                                (successful_calls ?new))))))"
      using w' n1 n2 by simp
    moreover have "\<forall>(a, c)\<in>set (zip (filter (\<lambda>a. acc_holdingsCount a > 0) accounts)
                                 (successful_calls ?new)).
                 \<forall>h\<in>set (backfill_account a (holdings_of (snd c))).
                   h_account h = Some (acc_account a)"
      by (auto simp: backfill_account_field)
    ultimately show ?thesis by blast
  qed
qed

text \<open>
  Claim C5 as stated fetches the holdings of every account whose count is not zero. An
  account whose count is \<open>-1\<close> has a nonzero count, and the report succeeds without any
  RPC call: the file holds the header alone.
\<close>

theorem portfolio_queries_and_backfill_counterexample:
  "map acc_holdingsCount negative_count_accounts = [- 1] \<and>
   report_portfolio (mock_server []) negative_count_accounts logged_in_monarch logged_in_world =
     (Inr (), logged_in_monarch,
      logged_in_world\<lparr>w_trace := w_trace logged_in_world @ [FileOpened ''out/rp.csv'' False],
                      w_files := (w_files logged_in_world)(''out/rp.csv'' \<mapsto>
                         csv_writerow PORTFOLIO_HEADER)\<rparr>) \<and>
   rpc_requests (w_trace logged_in_world @ [FileOpened ''out/rp.csv'' False]) = []"
  by (simp add: negative_count_accounts_def report_portfolio_def write_portfolio_file
        logged_in_monarch_def example_monarch_def logged_in_world_def)


text \<open>The rows of the example holdings response, as the tests expect them.\<close>

lemma example_holdings_rows:
  "HoldingsQuerySchema_load (holdings_response example_edges) =
     Inr [\<lparr>h_account = None, h_ticker = ''AAA'', h_shares = ''1288.212'', h_price = ''33.03'',
           h_cost = ''2227.6''\<rparr>,
          \<lparr>h_account = None, h_ticker = ''BBB'', h_shares = ''10'', h_price = ''120'',
           h_cost = ''1000''\<rparr>]"
  by (simp add: HoldingsQuerySchema_load_def holdings_response_def example_edges_def
      Holding_init_def str_decimal_def str_nat.simps digit_char_def Let_def)

text \<open>The amended claim at the two example accounts (Checking without holdings,
  Brokerage with two) and a stale session: only account 102 is fetched, and both rows bear
  its name.\<close>

theorem portfolio_queries_and_backfill_witness:
  "(\<exists>self' w'. report_portfolio (mock_server []) example_accounts logged_in_monarch logged_in_world
                  = (Inr (), self', w') \<and>
      rpc_requests (w_trace w') = [GetAccountHoldings 102, GetAccountHoldings 102] \<and>
      w_files w' ''out/rp.csv'' =
        Some (csv_writerow PORTFOLIO_HEADER @
              holding_line \<lparr>h_account = Some ''Brokerage'', h_ticker = ''AAA'',
                             h_shares = ''1288.212'', h_price = ''33.03'', h_cost = ''2227.6''\<rparr> @
              holding_line \<lparr>h_account = Some ''Brokerage'', h_ticker = ''BBB'',
                             h_shares = ''10'', h_price = ''120'', h_cost = ''1000''\<rparr>))"
proof -
  let ?ev = "mock_server []"
  obtain r self' w' where run:
    "report_portfolio ?ev example_accounts logged_in_monarch logged_in_world = (r, self', w')"
    by (metis prod_cases3)
  define new where "new =
      [RpcCall 0 (GetAccountHoldings 102) (Inl (TransportServerError ''KDD ERROR'' (Some 401))),
       LoginInvoked False, ClientCreated 1 (Some ''out/session.pickle''),
       ClientLogin 1 (LoginArgs ''blah'' ''blah'' True False ''blah'') (Inr ''FAKETOKEN''),
       Slept 0,
       RpcCall 1 (GetAccountHoldings 102) (Inr (holdings_response example_edges)),
       FileOpened ''out/rp.csv'' False]"
  from run have r: "r = Inr ()" and tr: "w_trace w' = w_trace logged_in_world @ new"
    by (auto simp: report_portfolio_def example_accounts_def eval_retry mock_server_def answer_def
          logged_in_monarch_def logged_in_world_def example_monarch_def example_holdings_rows
          write_portfolio_file new_def)
  from portfolio_queries_and_backfill [OF run] obtain new' where
    tr': "w_trace w' = w_trace logged_in_world @ new'" and
    written: "r = Inr () \<longrightarrow> w_files w' (fn_portfolio_report logged_in_monarch) =
                Some (csv_writerow PORTFOLIO_HEADER @
                      concat (map holding_line
                        (concat (map (\<lambda>(a, c). backfill_account a (holdings_of (snd c)))
                           (zip (filter (\<lambda>a. acc_holdingsCount a > 0) example_accounts)
                                (successful_calls new'))))))"
    by blast
  from tr tr' have "new' = new" by simp
  with written r have "w_files w' ''out/rp.csv'' =
        Some (csv_writerow PORTFOLIO_HEADER @
              holding_line \<lparr>h_account = Some ''Brokerage'', h_ticker = ''AAA'',
                             h_shares = ''1288.212'', h_price = ''33.03'', h_cost = ''2227.6''\<rparr> @
              holding_line \<lparr>h_account = Some ''Brokerage'', h_ticker = ''BBB'',
                             h_shares = ''10'', h_price = ''120'', h_cost = ''1000''\<rparr>)"
    by (simp add: new_def example_accounts_def holdings_of_def example_holdings_rows
          backfill_account_def logged_in_monarch_def example_monarch_def)
  moreover from tr have "rpc_requests (w_trace w') = [GetAccountHoldings 102, GetAccountHoldings 102]"
    by (simp add: new_def logged_in_world_def)
  ultimately show ?thesis using run r by simp
qed

section \<open>Calendar arithmetic\<close>

lemma div_eqI: "(a::int) = b * q + r \<Longrightarrow> 0 \<le> r \<Longrightarrow> r < b \<Longrightarrow> a div b = q"
  by (rule int_div_pos_eq)

lemma mod_eqI: "(a::int) = b * q + r \<Longrightarrow> 0 \<le> r \<Longrightarrow> r < b \<Longrightarrow> a mod b = r"
  by (rule int_mod_pos_eq)

lemma mod_zero_top:
  assumes "0 < (x::int)" "x \<le> m"
  shows "(x mod m = 0) = (x = m)"
proof (cases "x = m")
  case True
  then show ?thesis by simp
next
  case False
  with assms have "x mod m = x" by (intro mod_pos_pos_trivial) auto
  with assms False show ?thesis by simp
qed

lemma days_before_year_decomposed:
  assumes "0 \<le> b" "b \<le> 3" "0 \<le> c" "c \<le> 24" "0 \<le> d" "d \<le> 3"
  shows "days_before_year (400 * a + 100 * b + 4 * c + d + 1)
           = 146097 * a + 36524 * b + 1461 * c + 365 * d"
proof -
  let ?y = "400 * a + 100 * b + 4 * c + d"
  have d4: "?y div 4 = 100 * a + 25 * b + c"
    using assms by (intro div_eqI [where r = d]) auto
  have d100: "?y div 100 = 4 * a + b"
    using assms by (intro div_eqI [where r = "4 * c + d"]) auto
  have d400: "?y div 400 = a"
    using assms by (intro div_eqI [where r = "100 * b + 4 * c + d"]) auto
  show ?thesis
    by (simp add: days_before_year_def Let_def d4 d100 d400)
qed

lemma is_leap_decomposed:
  assumes "0 \<le> b" "b \<le> 3" "0 \<le> c" "c \<le> 24" "0 \<le> d" "d \<le> 3"
  shows "is_leap (400 * a + 100 * b + 4 * c + d + 1) = (d = 3 \<and> (c \<noteq> 24 \<or> b = 3))"
proof -
  let ?y = "400 * a + 100 * b + 4 * c + d + 1"
  have "?y = 4 * (100 * a + 25 * b + c) + (d + 1)" by simp
  then have m4: "?y mod 4 = (d + 1) mod 4"
    by (metis mod_mult_self4)
  have "?y = 100 * (4 * a + b) + (4 * c + d + 1)" by simp
  then have m100: "?y mod 100 = (4 * c + d + 1) mod 100"
    by (metis mod_mult_self4)
  have "?y = 400 * a + (100 * b + 4 * c + d + 1)" by simp
  then have m400: "?y mod 400 = (100 * b + 4 * c + d + 1) mod 400"
    by (metis mod_mult_self4)
  have a: "(d + 1) mod 4 = 0 \<longleftrightarrow> d + 1 = 4"
    using assms by (intro mod_zero_top) auto
  have b: "(4 * c + d + 1) mod 100 = 0 \<longleftrightarrow> 4 * c + d + 1 = 100"
    using assms by (intro mod_zero_top) auto
  have c: "(100 * b + 4 * c + d + 1) mod 400 = 0 \<longleftrightarrow> 100 * b + 4 * c + d + 1 = 400"
    using assms by (intro mod_zero_top) auto
  show ?thesis
    unfolding is_leap_def m4 m100 m400 a b c using assms by auto
qed


lemma month_range:
  assumes "0 \<le> (n::int)" "n \<le> 364"
  shows "1 \<le> (n + 50) div 32 \<and> (n + 50) div 32 \<le> 12"
proof -
  have "32 * 1 \<le> n + 50" using assms by simp
  then have "1 \<le> (n + 50) div 32"
    by (simp add: pos_le_divide_eq zdiv_mono1 [of 32 "n + 50" 32, simplified])
  moreover have "(n + 50) div 32 \<le> 414 div 32"
    using assms by (intro zdiv_mono1) auto
  ultimately show ?thesis by simp
qed

lemma month_cases:
  assumes "1 \<le> (m::int)" "m \<le> 12"
  obtains "m = 1" | "m = 2" | "m = 3" | "m = 4" | "m = 5" | "m = 6"
        | "m = 7" | "m = 8" | "m = 9" | "m = 10" | "m = 11" | "m = 12"
proof -
  from assms have "m = 1 \<or> m = 2 \<or> m = 3 \<or> m = 4 \<or> m = 5 \<or> m = 6 \<or>
                   m = 7 \<or> m = 8 \<or> m = 9 \<or> m = 10 \<or> m = 11 \<or> m = 12"
    by arith
  with that show ?thesis by blast
qed

lemma preceding_adjusted:
  assumes "0 \<le> n" "1 \<le> m" "m \<le> 12"
      and "DAYS_BEFORE_MONTH ! nat m + (if m > 2 \<and> leap then 1 else 0) > n"
  shows "DAYS_BEFORE_MONTH ! nat m + (if m > 2 \<and> leap then 1 else 0)
           - (DAYS_IN_MONTH ! nat (m - 1) + (if m - 1 = 2 \<and> leap then 1 else 0))
         = DAYS_BEFORE_MONTH ! nat (m - 1) + (if m - 1 > 2 \<and> leap then 1 else 0)
         \<and> 1 \<le> m - 1"
  using assms(2,3)
proof (cases rule: month_cases)
  case 1
  with assms show ?thesis by (simp add: DAYS_BEFORE_MONTH_def)
qed (simp_all add: DAYS_BEFORE_MONTH_def DAYS_IN_MONTH_def)


text \<open>Converting an ordinal to a date and back gives the ordinal.\<close>

lemma ymd2ord_ord2ymd:
  assumes "0 < n" "ord2ymd n = (y, m, d)"
  shows "ymd2ord y m d = n"
proof -
  define a where "a = (n - 1) div 146097"
  define n1 where "n1 = (n - 1) mod 146097"
  define b where "b = n1 div 36524"
  define n2 where "n2 = n1 mod 36524"
  define c where "c = n2 div 1461"
  define n3 where "n3 = n2 mod 1461"
  define e where "e = n3 div 365"
  define nn where "nn = n3 mod 365"
  have N: "n - 1 = 146097 * a + n1" and n1: "0 \<le> n1" "n1 < 146097"
    by (simp_all add: a_def n1_def)
  have N1: "n1 = 36524 * b + n2" and n2: "0 \<le> n2" "n2 < 36524"
    by (simp_all add: b_def n2_def)
  have N2: "n2 = 1461 * c + n3" and n3: "0 \<le> n3" "n3 < 1461"
    by (simp_all add: c_def n3_def)
  have N3: "n3 = 365 * e + nn" and nn: "0 \<le> nn" "nn < 365"
    by (simp_all add: e_def nn_def)
  have b: "0 \<le> b" "b \<le> 4"
    using N1 n1 n2 by (simp_all add: b_def pos_imp_zdiv_nonneg_iff)
  have c: "0 \<le> c" "c \<le> 24"
    using N2 n2 n3 by (simp_all add: c_def pos_imp_zdiv_nonneg_iff)
  have e: "0 \<le> e" "e \<le> 4"
    using N3 n3 nn by (simp_all add: e_def pos_imp_zdiv_nonneg_iff)
  define year where "year = a * 400 + 1 + b * 100 + c * 4 + e"
  define leap where "leap = (e = 3 \<and> (c \<noteq> 24 \<or> b = 3))"
  define month where "month = (nn + 50) div 32"
  define preceding where
    "preceding = DAYS_BEFORE_MONTH ! nat month + (if month > 2 \<and> leap then 1 else 0)"
  have res: "ord2ymd n =
     (if e = 4 \<or> b = 4 then (year - 1, 12, 31)
      else if preceding > nn
        then (year, month - 1,
              nn - (preceding - (DAYS_IN_MONTH ! nat (month - 1)
                                  + (if month - 1 = 2 \<and> leap then 1 else 0))) + 1)
        else (year, month, nn - preceding + 1))"
    unfolding ord2ymd_def Let_def preceding_def month_def leap_def year_def e_def nn_def
      c_def n3_def b_def n2_def a_def n1_def
    by (rule refl)
  show ?thesis
  proof (cases "b = 4")
    case True
    with N1 n1 n2 have "n2 = 0" by arith
    with N2 n3 c have "c = 0" "n3 = 0" by auto
    with N3 nn e have "e = 0" "nn = 0" by auto
    from res True assms(2) have ymd: "y = year - 1" "m = 12" "d = 31" by simp_all
    have y: "y = 400 * a + 100 * 3 + 4 * 24 + 3 + 1"
      using ymd True \<open>c = 0\<close> \<open>e = 0\<close> by (simp add: year_def)
    have "days_before_year y = 146097 * a + 36524 * 3 + 1461 * 24 + 365 * 3"
      unfolding y by (rule days_before_year_decomposed) simp_all
    moreover have "is_leap y"
      unfolding y by (subst is_leap_decomposed) simp_all
    ultimately have "ymd2ord y m d = 146097 * a + 146097"
      using ymd by (simp add: ymd2ord_def days_before_month_def DAYS_BEFORE_MONTH_def)
    with N N1 True \<open>n2 = 0\<close> show ?thesis by simp
  next
    case b3: False
    with b have b': "b \<le> 3" by simp
    show ?thesis
    proof (cases "e = 4")
      case True
      with N3 n3 nn have "nn = 0" by arith
      with N2 N3 True n2 c have c': "c \<le> 23" by arith
      from res True assms(2) have ymd: "y = year - 1" "m = 12" "d = 31" by simp_all
      have y: "y = 400 * a + 100 * b + 4 * c + 3 + 1"
        using ymd True by (simp add: year_def)
      have "days_before_year y = 146097 * a + 36524 * b + 1461 * c + 365 * 3"
        unfolding y using b b' c by (intro days_before_year_decomposed) simp_all
      moreover have "is_leap y"
        unfolding y using b b' c c' by (subst is_leap_decomposed) simp_all
      ultimately have "ymd2ord y m d = 146097 * a + 36524 * b + 1461 * c + 1461"
        using ymd by (simp add: ymd2ord_def days_before_month_def DAYS_BEFORE_MONTH_def)
      with N N1 N2 N3 True \<open>nn = 0\<close> show ?thesis by simp
    next
      case False
      with e have e': "e \<le> 3" by simp
      have yr: "year = 400 * a + 100 * b + 4 * c + e + 1"
        by (simp add: year_def)
      have dby: "days_before_year year = 146097 * a + 36524 * b + 1461 * c + 365 * e"
        unfolding yr using b b' c e e' by (intro days_before_year_decomposed) simp_all
      have lp: "is_leap year = leap"
        unfolding yr leap_def using b b' c e e' by (intro is_leap_decomposed) simp_all
      from nn have mr: "1 \<le> month" "month \<le> 12"
        using month_range [of nn] by (simp_all add: month_def)
      have "ymd2ord y m d = days_before_year year + nn + 1"
      proof (cases "preceding > nn")
        case True
        with res b3 False assms(2) have ymd: "y = year" "m = month - 1"
          "d = nn - (preceding - (DAYS_IN_MONTH ! nat (month - 1)
                                  + (if month - 1 = 2 \<and> leap then 1 else 0))) + 1"
          by simp_all
        from preceding_adjusted [OF nn(1) mr True [unfolded preceding_def]]
        have "preceding - (DAYS_IN_MONTH ! nat (month - 1)
                                  + (if month - 1 = 2 \<and> leap then 1 else 0))
              = DAYS_BEFORE_MONTH ! nat (month - 1) + (if month - 1 > 2 \<and> leap then 1 else 0)"
          by (simp add: preceding_def)
        with ymd lp show ?thesis
          by (simp add: ymd2ord_def days_before_month_def)
      next
        case False
        with res b3 \<open>e \<noteq> 4\<close> assms(2) have ymd: "y = year" "m = month" "d = nn - preceding + 1"
          by simp_all
        with lp show ?thesis
          by (simp add: ymd2ord_def days_before_month_def preceding_def)
      qed
      with dby N N1 N2 N3 show ?thesis by simp
    qed
  qed
qed

section \<open>The Eastern date of an account\<close>

lemma datetime_add_seconds_result:
  assumes "datetime_add_seconds dt secs = Inr dt'"
  shows "utc_seconds dt' = utc_seconds dt + secs"
    and "date_of dt' = ord2ymd ((utc_seconds dt + secs) div 86400)"
    and "dt_utcoffset dt' = dt_utcoffset dt"
proof -
  define total where "total = utc_seconds dt + secs"
  define days where "days = total div 86400"
  define s where "s = total mod 86400"
  obtain y m d where ymd: "ord2ymd days = (y, m, d)"
    by (metis prod_cases3)
  from assms have pos: "0 < days" and
    dt': "dt' = dt\<lparr>dt_year := y, dt_month := m, dt_day := d, dt_hour := s div 3600,
                    dt_minute := (s mod 3600) div 60, dt_second := (s mod 3600) mod 60\<rparr>"
    using ymd
    by (auto simp: datetime_add_seconds_def Let_def utc_seconds_def total_def days_def s_def
          split: if_splits)
  from ymd2ord_ord2ymd [OF pos ymd] have ord: "ymd2ord y m d = days" .
  have "s div 3600 * 3600 + (s mod 3600) div 60 * 60 + (s mod 3600) mod 60 = s"
    by (metis div_mult_mod_eq add.assoc)
  then have "utc_seconds dt' = days * 86400 + s"
    using dt' ord by (simp add: utc_seconds_def)
  then show "utc_seconds dt' = utc_seconds dt + secs"
    by (simp add: days_def s_def total_def)
  show "date_of dt' = ord2ymd ((utc_seconds dt + secs) div 86400)"
    using dt' ymd by (simp add: date_of_def days_def total_def)
  show "dt_utcoffset dt' = dt_utcoffset dt"
    using dt' by simp
qed

lemma astimezone_date:
  assumes "astimezone sys_offset tz dt = Inr loc" "dt_utcoffset dt = Some off"
  shows "date_of loc = ord2ymd ((utc_seconds dt - off + tz (utc_seconds dt - off)) div 86400)"
proof -
  from assms obtain utc loc0 where
    u: "datetime_add_seconds dt (- off) = Inr utc" and
    l: "datetime_add_seconds utc (tz (utc_seconds utc)) = Inr loc0" and
    loc: "loc = loc0\<lparr>dt_utcoffset := Some (tz (utc_seconds utc))\<rparr>"
    by (auto simp: astimezone_def Let_def bind_r_Inr_iff)
  from datetime_add_seconds_result(1) [OF u] have "utc_seconds utc = utc_seconds dt - off"
    by simp
  with datetime_add_seconds_result(2) [OF l] loc show ?thesis
    by (simp add: date_of_def)
qed

text \<open>
  Claim C7. For an account row built from a response whose \<open>updatedAt\<close> is a
  timezone-aware value, with \<open>T\<close> the instant in UTC (in seconds): \<open>date_eastern\<close> is
  the ISO text of the calendar date of \<open>T\<close> shifted by the offset the zone
  \<open>America/New_York\<close> has at \<open>T\<close>. In particular, when the UTC time of day of \<open>T\<close> is
  before the zone's midnight (less than the zone's distance behind UTC), \<open>date_eastern\<close>
  is the day before the UTC date of \<open>T\<close>. The zone's table of offsets is a parameter.
\<close>

theorem date_eastern_by_zone_conversion:
  assumes "Account_init sys_offset ny row = Inr acc"
      and "a_updatedAt row = Some dt" "dt_utcoffset dt = Some off"
      and "T = utc_seconds dt - off"
  shows "acc_date_eastern acc = date_isoformat (ord2ymd ((T + ny T) div 86400)) \<and>
         (T mod 86400 < - ny T \<and> - ny T \<le> 86400 \<longrightarrow>
            acc_date_eastern acc = date_isoformat (ord2ymd (T div 86400 - 1)))"
proof -
  from assms(1,2) obtain eastern where
    e: "astimezone sys_offset ny dt = Inr eastern" and
    d: "acc_date_eastern acc = date_isoformat (date_of eastern)"
    by (auto simp: Account_init_def bind_r_Inr_iff)
  from astimezone_date [OF e assms(3)] d assms(4)
  have main: "acc_date_eastern acc = date_isoformat (ord2ymd ((T + ny T) div 86400))"
    by simp
  have "(T + ny T) div 86400 = T div 86400 - 1"
    if "T mod 86400 < - ny T" "- ny T \<le> 86400"
  proof -
    have "T + ny T = 86400 * (T div 86400 - 1) + (T mod 86400 + ny T + 86400)"
      by (simp add: algebra_simps)
    moreover have "0 \<le> T mod 86400 + ny T + 86400" "T mod 86400 + ny T + 86400 < 86400"
      using that by simp_all
    ultimately show ?thesis by (rule div_eqI)
  qed
  with main show ?thesis by simp
qed


text \<open>Claim C7 at 2026-01-01T03:00:00+00:00, when Eastern Standard Time is in force:
  the UTC text starts with 2026-01-01 and \<open>date_eastern\<close> is 2025-12-31.\<close>

theorem date_eastern_by_zone_conversion_witness:
  "\<exists>acc. Account_init (\<lambda>dt. 0) eastern_standard new_year_account_d = Inr acc \<and>
         acc_datetime acc = ''2026-01-01T03:00:00+00:00'' \<and>
         acc_date_eastern acc = ''2025-12-31''"
proof -
  let ?dt = "\<lparr>dt_year = 2026, dt_month = 1, dt_day = 1, dt_hour = 3, dt_minute = 0,
              dt_second = 0, dt_microsecond = 0, dt_utcoffset = Some 0\<rparr>"
  have tz: "astimezone (\<lambda>dt. 0) eastern_standard ?dt =
      Inr \<lparr>dt_year = 2025, dt_month = 12, dt_day = 31, dt_hour = 22, dt_minute = 0,
           dt_second = 0, dt_microsecond = 0, dt_utcoffset = Some (- 18000)\<rparr>"
    by code_simp
  have iso: "datetime_isoformat ?dt = ''2026-01-01T03:00:00+00:00''"
    by code_simp
  obtain acc where init: "Account_init (\<lambda>dt. 0) eastern_standard new_year_account_d = Inr acc"
    and dt: "acc_datetime acc = ''2026-01-01T03:00:00+00:00''"
    by (simp add: Account_init_def new_year_account_d_def tz iso)
  have h2: "a_updatedAt new_year_account_d = Some ?dt"
    by (simp add: new_year_account_d_def)
  have h3: "dt_utcoffset ?dt = Some 0" by simp
  have T: "63902919600 = utc_seconds ?dt - 0"
    by code_simp
  have before_midnight: "63902919600 mod 86400 < - eastern_standard 63902919600 \<and>
      - eastern_standard 63902919600 \<le> (86400::int)"
    by code_simp
  from date_eastern_by_zone_conversion [OF init h2 h3 T] before_midnight
  have "acc_date_eastern acc = date_isoformat (ord2ymd (63902919600 div 86400 - 1))"
    by blast
  also have "\<dots> = ''2025-12-31''"
    by code_simp
  finally show ?thesis using init dt by blast
qed

text \<open>The example account rows are what the example response maps to.\<close>

lemma example_accounts_rows:
  "AccountsQuerySchema_load (\<lambda>dt. 0) eastern_standard (accounts_response example_accounts_d)
     = Inr example_accounts"
proof -
  have tz: "astimezone (\<lambda>dt. 0) eastern_standard example_updatedAt =
      Inr \<lparr>dt_year = 2026, dt_month = 1, dt_day = 12, dt_hour = 9, dt_minute = 28,
           dt_second = 13, dt_microsecond = 637497, dt_utcoffset = Some (- 18000)\<rparr>"
    by code_simp
  have iso: "datetime_isoformat example_updatedAt = ''2026-01-12T14:28:13.637497+00:00''"
    by (simp add: example_updatedAt_def datetime_isoformat_def date_isoformat_def date_of_def
        format_offset_def zpad_def str_nat.simps digit_char_def)
  have d: "date_isoformat (date_of \<lparr>dt_year = 2026, dt_month = 1, dt_day = 12, dt_hour = 9,
           dt_minute = 28, dt_second = 13, dt_microsecond = 637497,
           dt_utcoffset = Some (- 18000)\<rparr>) = ''2026-01-12''"
    by code_simp
  show ?thesis
    by (simp add: AccountsQuerySchema_load_def accounts_response_def example_accounts_d_def
        example_accounts_def Account_init_def tz iso d)
qed

section \<open>Decimal texts\<close>

lemma is_digit_cases:
  assumes "is_digit c"
  obtains d where "d < 10" "c = digit_char d" "digit_val c = d"
proof -
  from assms have "c = CHR ''0'' \<or> c = CHR ''1'' \<or> c = CHR ''2'' \<or> c = CHR ''3'' \<or> c = CHR ''4''
      \<or> c = CHR ''5'' \<or> c = CHR ''6'' \<or> c = CHR ''7'' \<or> c = CHR ''8'' \<or> c = CHR ''9''"
    by (simp add: is_digit_def)
  then have "\<exists>d<10. c = digit_char d \<and> digit_val c = d"
    by (elim disjE) (simp_all add: digit_char_def digit_val_def)
  with that show ?thesis by blast
qed

lemma is_digit_digit_char: "d < 10 \<Longrightarrow> is_digit (digit_char d)"
  using lt10_cases [of d] by (auto simp: digit_char_simps is_digit_def)

lemma digit_val_digit_char: "d < 10 \<Longrightarrow> digit_val (digit_char d) = d"
  using lt10_cases [of d] by (auto simp: digit_char_simps digit_val_def)

lemma str_nat_digits: "list_all is_digit (str_nat n)"
proof (induction n rule: str_nat.induct)
  case (1 n)
  show ?case
  proof (cases "n < 10")
    case True
    then show ?thesis by (subst str_nat.simps) (simp add: is_digit_digit_char)
  next
    case False
    with 1 show ?thesis
      by (subst str_nat.simps) (simp add: is_digit_digit_char)
  qed
qed

lemma str_nat_step: "0 < m \<Longrightarrow> r < 10 \<Longrightarrow> str_nat (m * 10 + r) = str_nat m @ [digit_char r]"
  by (subst str_nat.simps) simp

lemma nat_of_digits_snoc: "nat_of_digits (ds @ [c]) = nat_of_digits ds * 10 + digit_val c"
  by (simp add: nat_of_digits_def)

lemma nat_of_digits_append:
  "nat_of_digits (xs @ ys) = nat_of_digits xs * 10 ^ length ys + nat_of_digits ys"
proof (induction ys rule: rev_induct)
  case Nil
  show ?case by (simp add: nat_of_digits_def)
next
  case (snoc c ys)
  have "nat_of_digits (xs @ ys @ [c]) = nat_of_digits ((xs @ ys) @ [c])" by simp
  also have "\<dots> = nat_of_digits (xs @ ys) * 10 + digit_val c" by (rule nat_of_digits_snoc)
  finally show ?case
    by (simp add: snoc.IH nat_of_digits_snoc algebra_simps)
qed

lemma nat_of_digits_str_nat: "nat_of_digits (str_nat n) = n"
proof (induction n rule: str_nat.induct)
  case (1 n)
  show ?case
  proof (cases "n < 10")
    case True
    then show ?thesis
      by (subst str_nat.simps) (simp add: nat_of_digits_def digit_val_digit_char)
  next
    case False
    with 1 have "nat_of_digits (str_nat (n div 10)) = n div 10" by simp
    with False show ?thesis
      by (subst str_nat.simps) (simp add: nat_of_digits_snoc digit_val_digit_char)
  qed
qed

lemma nat_of_digits_bound: "list_all is_digit ds \<Longrightarrow> nat_of_digits ds < 10 ^ length ds"
proof (induction ds rule: rev_induct)
  case Nil
  show ?case by (simp add: nat_of_digits_def)
next
  case (snoc c ds)
  then have "is_digit c" and IH: "nat_of_digits ds < 10 ^ length ds" by simp_all
  from \<open>is_digit c\<close> obtain d where "d < 10" "digit_val c = d" by (rule is_digit_cases)
  with IH show ?case by (simp add: nat_of_digits_snoc)
qed

text \<open>Printing a number whose leading part is positive: the digits of the leading part,
  then the remaining digits as they are.\<close>

lemma str_nat_append_digits:
  assumes "0 < n" "list_all is_digit ds"
  shows "str_nat (n * 10 ^ length ds + nat_of_digits ds) = str_nat n @ ds"
  using assms(2)
proof (induction ds rule: rev_induct)
  case Nil
  show ?case by (simp add: nat_of_digits_def)
next
  case (snoc c ds)
  then have c: "is_digit c" and IH: "str_nat (n * 10 ^ length ds + nat_of_digits ds) = str_nat n @ ds"
    by simp_all
  from c obtain d where d: "d < 10" "c = digit_char d" "digit_val c = d" by (rule is_digit_cases)
  have eq: "n * 10 ^ length (ds @ [c]) + nat_of_digits (ds @ [c])
          = (n * 10 ^ length ds + nat_of_digits ds) * 10 + d"
    using d by (simp add: nat_of_digits_snoc digit_val_digit_char algebra_simps)
  have pos: "0 < n * 10 ^ length ds + nat_of_digits ds" using assms(1) by simp
  have "str_nat (n * 10 ^ length (ds @ [c]) + nat_of_digits (ds @ [c]))
          = str_nat ((n * 10 ^ length ds + nat_of_digits ds) * 10 + d)"
    by (simp only: eq)
  also have "\<dots> = str_nat (n * 10 ^ length ds + nat_of_digits ds) @ [digit_char d]"
    using pos d(1) by (rule str_nat_step)
  also have "\<dots> = (str_nat n @ ds) @ [c]"
    by (simp only: IH d(2))
  finally show ?case by simp
qed

lemma str_nat_length_le:
  assumes "list_all is_digit ds" "ds \<noteq> []"
  shows "length (str_nat (nat_of_digits ds)) \<le> length ds"
  using assms
proof (induction ds rule: rev_induct)
  case Nil
  then show ?case by simp
next
  case (snoc c ds)
  then have c: "is_digit c" and dg: "list_all is_digit ds" by simp_all
  from c obtain d where d: "d < 10" "c = digit_char d" "digit_val c = d" by (rule is_digit_cases)
  show ?case
  proof (cases "nat_of_digits ds = 0")
    case True
    then have "nat_of_digits (ds @ [c]) = d"
      using d by (simp add: nat_of_digits_snoc digit_val_digit_char)
    with d show ?thesis by (simp add: str_nat.simps [of d])
  next
    case False
    then have "ds \<noteq> []" by (auto simp: nat_of_digits_def)
    with snoc.IH dg have "length (str_nat (nat_of_digits ds)) \<le> length ds" by simp
    moreover from False d have "str_nat (nat_of_digits (ds @ [c])) = str_nat (nat_of_digits ds) @ [c]"
      using str_nat_step [of "nat_of_digits ds" d]
      by (simp add: nat_of_digits_snoc digit_val_digit_char)
    ultimately show ?thesis by simp
  qed
qed

text \<open>Printing the number a digit string denotes loses its leading zeros, and nothing else.\<close>

lemma zero_padding_restores:
  assumes "list_all is_digit ds" "ds \<noteq> []"
  shows "replicate (length ds - length (str_nat (nat_of_digits ds))) CHR ''0''
           @ str_nat (nat_of_digits ds) = ds"
  using assms
proof (induction ds)
  case Nil
  then show ?case by simp
next
  case (Cons c ds)
  then have c: "is_digit c" and dg: "list_all is_digit ds" by simp_all
  from c obtain d where d: "d < 10" "c = digit_char d" "digit_val c = d" by (rule is_digit_cases)
  have val: "nat_of_digits (c # ds) = d * 10 ^ length ds + nat_of_digits ds"
    using nat_of_digits_append [of "[c]" ds] d
    by (simp add: nat_of_digits_def digit_val_digit_char)
  show ?case
  proof (cases "d = 0")
    case False
    with dg have "str_nat (d * 10 ^ length ds + nat_of_digits ds) = str_nat d @ ds"
      by (intro str_nat_append_digits) simp_all
    with d val show ?thesis by (simp add: str_nat.simps [of d])
  next
    case True
    with d have c0: "c = CHR ''0''" by (simp add: digit_char_simps)
    show ?thesis
    proof (cases "ds = []")
      case True
      with val \<open>d = 0\<close> c0 show ?thesis by (simp add: nat_of_digits_def str_nat.simps [of 0] digit_char_simps)
    next
      case False
      with Cons.IH dg
      have IH: "replicate (length ds - length (str_nat (nat_of_digits ds))) CHR ''0''
                  @ str_nat (nat_of_digits ds) = ds"
        by simp
      from str_nat_length_le [OF dg False]
      have "length (c # ds) - length (str_nat (nat_of_digits ds))
              = Suc (length ds - length (str_nat (nat_of_digits ds)))"
        by simp
      with IH val \<open>d = 0\<close> c0 show ?thesis by simp
    qed
  qed
qed


subsection \<open>Parsing and printing plain decimal texts\<close>

lemma dropWhile_none: "\<forall>c\<in>set xs. \<not> P c \<Longrightarrow> dropWhile P xs = xs"
  by (cases xs) simp_all

lemma strip_id: "\<forall>c\<in>set s. \<not> is_space c \<Longrightarrow> strip s = s"
  by (simp add: strip_def dropWhile_none)

lemma digit_not_special:
  assumes "is_digit c"
  shows "\<not> is_space c" "c \<noteq> CHR ''_''" "c \<noteq> CHR ''-''" "c \<noteq> CHR ''+''" "c \<noteq> CHR ''.''"
  using assms by (auto simp: is_digit_def is_space_def)

lemma not_digit_point: "\<not> is_digit CHR ''.''"
  by (simp add: is_digit_def)

lemma plain_text_chars:
  assumes "list_all is_digit fp"
      and "c \<in> set ((if neg then ''-'' else '''') @ str_nat n @ (if fp = [] then [] else CHR ''.'' # fp))"
  shows "\<not> is_space c \<and> c \<noteq> CHR ''_''"
proof -
  from assms(2) consider "c = CHR ''-''" | "c \<in> set (str_nat n)" | "c = CHR ''.''" | "c \<in> set fp"
    by (auto split: if_splits)
  then show ?thesis
  proof cases
    case 1
    then show ?thesis by (simp add: is_space_def)
  next
    case 2
    with str_nat_digits [of n] have "is_digit c" by (simp add: list_all_iff)
    then show ?thesis by (simp add: digit_not_special)
  next
    case 3
    then show ?thesis by (simp add: is_space_def)
  next
    case 4
    with assms(1) have "is_digit c" by (simp add: list_all_iff)
    then show ?thesis by (simp add: digit_not_special)
  qed
qed

lemma parse_plain:
  assumes "list_all is_digit fp"
  shows "parse_decimal ((if neg then ''-'' else '''') @ str_nat n
                          @ (if fp = [] then [] else CHR ''.'' # fp))
         = Some (Decimal neg (n * 10 ^ length fp + nat_of_digits fp) (- int (length fp)))"
proof -
  define frac where "frac = (if fp = [] then [] else CHR ''.'' # fp)"
  define body where "body = str_nat n @ frac"
  define s where "s = (if neg then ''-'' else '''') @ body"
  have chars: "\<forall>c\<in>set s. \<not> is_space c \<and> c \<noteq> CHR ''_''"
    using plain_text_chars [OF assms, of _ neg n] by (simp add: s_def body_def frac_def)
  then have F1: "strip s = s" by (simp add: strip_id)
  from chars have F2: "filter (\<lambda>c. c \<noteq> CHR ''_'') s = s" by simp
  obtain c cs where cs: "str_nat n = c # cs"
    using str_nat_nonempty(1) [of n] by (cases "str_nat n") auto
  with str_nat_digits [of n] have "is_digit c" by simp
  then have c: "c \<noteq> CHR ''-''" "c \<noteq> CHR ''+''" by (simp_all add: digit_not_special)
  have F3: "(case s of [] \<Rightarrow> (False, [])
             | c # r \<Rightarrow> if c = CHR ''-'' then (True, r)
                        else if c = CHR ''+'' then (False, r) else (False, s)) = (neg, body)"
    using c cs by (cases neg) (simp_all add: s_def body_def)
  have digs: "\<And>x. x \<in> set (str_nat n) \<Longrightarrow> is_digit x"
    using str_nat_digits [of n] by (simp add: list_all_iff)
  have tw: "takeWhile is_digit frac = []" "dropWhile is_digit frac = frac"
    by (simp_all add: frac_def not_digit_point)
  have F4: "takeWhile is_digit body = str_nat n" "dropWhile is_digit body = frac"
    unfolding body_def using digs tw
    by (simp_all add: takeWhile_append2 dropWhile_append2)
  have fpd: "takeWhile is_digit fp = fp" "dropWhile is_digit fp = []"
    using assms by (simp_all add: list_all_iff)
  have F5: "(case dropWhile is_digit body of [] \<Rightarrow> ([], [])
             | c # r \<Rightarrow> if c = CHR ''.'' then (takeWhile is_digit r, dropWhile is_digit r)
                        else ([], dropWhile is_digit body)) = (fp, [])"
    using fpd by (simp add: F4 frac_def)
  have F7: "nat_of_digits (str_nat n @ fp) = n * 10 ^ length fp + nat_of_digits fp"
    by (simp add: nat_of_digits_append nat_of_digits_str_nat)
  have "parse_decimal s
          = Some (Decimal neg (n * 10 ^ length fp + nat_of_digits fp) (- int (length fp)))"
    by (simp add: parse_decimal_def Let_def F1 F2 F3 F4(1) F5 F7 str_nat_nonempty
        parse_exponent_def)
  then show ?thesis by (simp add: s_def body_def frac_def)
qed

lemma str_decimal_plain:
  assumes "list_all is_digit fp"
      and "n = 0 \<longrightarrow> length fp < length (str_nat (nat_of_digits fp)) + 6"
  shows "str_decimal (Decimal neg (n * 10 ^ length fp + nat_of_digits fp) (- int (length fp)))
         = (if neg then ''-'' else '''') @ str_nat n @ (if fp = [] then [] else CHR ''.'' # fp)"
proof (cases "0 < n")
  case True
  have dg: "str_nat (n * 10 ^ length fp + nat_of_digits fp) = str_nat n @ fp"
    using True assms(1) by (rule str_nat_append_digits)
  have len: "length (str_nat n) > 0" using str_nat_nonempty(1) [of n] by simp
  show ?thesis
  proof (cases "fp = []")
    case True
    with dg have "str_nat (n + nat_of_digits []) = str_nat n" by simp
    with True len show ?thesis
      by (simp add: str_decimal_def Let_def)
  next
    case False
    with len show ?thesis
      by (simp add: str_decimal_def Let_def dg)
  qed
next
  case False
  then have n: "n = 0" by simp
  show ?thesis
  proof (cases "fp = []")
    case True
    with n show ?thesis
      by (simp add: str_decimal_def Let_def nat_of_digits_def str_nat.simps [of 0])
  next
    case fp: False
    let ?digits = "str_nat (nat_of_digits fp)"
    from str_nat_length_le [OF assms(1) fp] have le: "length ?digits \<le> length fp" .
    from assms(2) n have lt: "length fp < length ?digits + 6" by simp
    from zero_padding_restores [OF assms(1) fp]
    have pad: "replicate (length fp - length ?digits) CHR ''0'' @ ?digits = fp" .
    have np: "nat (int (length fp) - int (length ?digits)) = length fp - length ?digits"
      by simp
    from le lt fp n show ?thesis
      by (simp add: str_decimal_def Let_def np pad str_nat.simps [of 0] digit_char_simps)
  qed
qed

subsection \<open>Decimal fields from source text to CSV cell\<close>

lemma Account_init_balance:
  "Account_init sys_offset ny row = Inr acc \<Longrightarrow> a_currentBalance row = Some (acc_balance acc)"
  by (auto simp: Account_init_def bind_r_Inr_iff getitem_def split: option.splits)

lemma Transaction_init_amount:
  "Transaction_init row catmap = Inr t \<Longrightarrow> t_amount row = Some (tx_amount t)"
  by (auto simp: Transaction_init_def bind_r_Inr_iff getitem_def split: option.splits)

lemma Holding_init_texts:
  assumes "Holding_init row = Inr h"
  shows "\<exists>node sec q p b. e_node row = Some node \<and> ah_security node = Some sec \<and>
           ah_quantity node = Some q \<and> s_currentPrice sec = Some p \<and> ah_basis node = Some b \<and>
           h_shares h = str_decimal q \<and> h_price h = str_decimal p \<and> h_cost h = str_decimal b"
  using assms
  by (auto simp: Holding_init_def bind_r_Inr_iff getitem_def split: option.splits)

text \<open>
  Claim C6, as amended. Let the source text \<open>s\<close> of a decimal field be a plain numeral: an
  optional minus sign, an integer part without superfluous leading zeros (the digits of a
  number \<open>n\<close>), and optionally a point followed by digits \<open>fp\<close>, where, if the integer
  part is 0, the fraction has fewer than six zeros before its first significant digit (at
  most six digits when all are zeros). Then the field reads \<open>s\<close> as a decimal that prints as
  \<open>s\<close> again, and the text written for it is \<open>s\<close>: in the balance column of an account
  row, in the amount column of a transaction row, and as the shares, price and cost of a
  holding row.
\<close>

theorem decimal_text_round_trip:
  assumes "list_all is_digit fp"
      and "n = 0 \<longrightarrow> length fp < length (str_nat (nat_of_digits fp)) + 6"
      and "s = (if neg then ''-'' else '''') @ str_nat n @ (if fp = [] then [] else CHR ''.'' # fp)"
  shows "\<exists>d. parse_decimal s = Some d \<and> str_decimal d = s \<and>
           (\<forall>sys_offset ny row acc.
              Account_init sys_offset ny row = Inr acc \<and> a_currentBalance row = Some d \<longrightarrow>
              dict_to_list BALANCES_HEADER True (Account_dict acc)
                = Inr [acc_account acc, s, acc_date_eastern acc, acc_datetime acc]) \<and>
           (\<forall>row catmap t.
              Transaction_init row catmap = Inr t \<and> t_amount row = Some d \<longrightarrow>
              dict_to_list TRANSACTIONS_HEADER False (Transaction_dict t)
                = Inr [tx_date t, tx_merchant t, tx_category t, tx_group t, tx_account t,
                       (case tx_notes t of None \<Rightarrow> '''' | Some n \<Rightarrow> n), s]) \<and>
           (\<forall>row node sec h.
              Holding_init row = Inr h \<and> e_node row = Some node \<and> ah_security node = Some sec \<longrightarrow>
              (ah_quantity node = Some d \<longrightarrow> h_shares h = s) \<and>
              (s_currentPrice sec = Some d \<longrightarrow> h_price h = s) \<and>
              (ah_basis node = Some d \<longrightarrow> h_cost h = s))"
proof -
  define d where "d = Decimal neg (n * 10 ^ length fp + nat_of_digits fp) (- int (length fp))"
  have p: "parse_decimal s = Some d"
    unfolding assms(3) d_def using assms(1) by (rule parse_plain)
  have r: "str_decimal d = s"
    unfolding assms(3) d_def using assms(1,2) by (rule str_decimal_plain)
  have a: "dict_to_list BALANCES_HEADER True (Account_dict acc)
                = Inr [acc_account acc, s, acc_date_eastern acc, acc_datetime acc]"
    if "Account_init sys_offset ny row = Inr acc" "a_currentBalance row = Some d"
    for sys_offset ny row acc
    using Account_init_balance [OF that(1)] that(2) r by (simp add: Account_dict_to_list)
  have t: "dict_to_list TRANSACTIONS_HEADER False (Transaction_dict t)
                = Inr [tx_date t, tx_merchant t, tx_category t, tx_group t, tx_account t,
                       (case tx_notes t of None \<Rightarrow> '''' | Some n \<Rightarrow> n), s]"
    if "Transaction_init row catmap = Inr t" "t_amount row = Some d" for row catmap t
    using Transaction_init_amount [OF that(1)] that(2) r by (simp add: Transaction_dict_to_list)
  have h: "(ah_quantity node = Some d \<longrightarrow> h_shares h = s) \<and>
           (s_currentPrice sec = Some d \<longrightarrow> h_price h = s) \<and>
           (ah_basis node = Some d \<longrightarrow> h_cost h = s)"
    if "Holding_init row = Inr h" "e_node row = Some node" "ah_security node = Some sec"
    for row node sec h
    using Holding_init_texts [OF that(1)] that(2,3) r by auto
  from p r a t h show ?thesis by blast
qed

text \<open>Unfolding these evaluates the reading of a decimal text.\<close>

lemmas eval_parse = parse_decimal_def strip_def is_space_def is_digit_def parse_exponent_def
  nat_of_digits_def digit_val_def Let_def

text \<open>
  Claim C6 as stated fails for a small quantity: the source text \<open>0.0000001\<close> is read
  exactly, and printed in scientific notation; the holding row built from it has the
  shares text \<open>1E-7\<close>, which is not the source text.
\<close>

theorem decimal_text_round_trip_counterexample:
  "parse_decimal ''0.0000001'' = Some (Decimal False 1 (- 7)) \<and>
   str_decimal (Decimal False 1 (- 7)) = ''1E-7'' \<and>
   Holding_init tiny_quantity_edge =
     Inr \<lparr>h_account = None, h_ticker = ''AAA'', h_shares = ''1E-7'', h_price = ''33.03'',
          h_cost = ''2227.6''\<rparr>"
proof -
  have q: "parse_decimal ''0.0000001'' = Some (Decimal False 1 (- 7))"
    by (simp add: eval_parse)
  have b: "parse_decimal ''2227.6'' = Some (Decimal False 22276 (- 1))"
    by (simp add: eval_parse)
  have p: "parse_decimal ''33.03'' = Some (Decimal False 3303 (- 2))"
    by (simp add: eval_parse)
  have s: "str_decimal (Decimal False 1 (- 7)) = ''1E-7''"
    "str_decimal (Decimal False 22276 (- 1)) = ''2227.6''"
    "str_decimal (Decimal False 3303 (- 2)) = ''33.03''"
    "str_decimal (Decimal False (Suc 0) (- 7)) = ''1E-7''"
    by (simp_all add: str_decimal_def Let_def format_signed_def str_nat.simps digit_char_def)
  show ?thesis
    by (simp add: tiny_quantity_edge_def Holding_init_def q b p s)
qed

text \<open>The amended claim at the balance text of the tests, and at a negative amount with
  five zeros after the point.\<close>

theorem decimal_text_round_trip_witness:
  "list_all is_digit ''71'' \<and>
   (\<exists>d. parse_decimal ''1811.71'' = Some d \<and> str_decimal d = ''1811.71'') \<and>
   list_all is_digit ''000001'' \<and>
   (\<exists>d. parse_decimal ''-0.000001'' = Some d \<and> str_decimal d = ''-0.000001'')"
proof -
  have a1: "list_all is_digit ''71''" by (simp add: is_digit_def)
  have a2: "(1811::nat) = 0 \<longrightarrow> length ''71'' < length (str_nat (nat_of_digits ''71'')) + 6"
    by simp
  have a3: "''1811.71'' = (if False then ''-'' else '''') @ str_nat 1811
              @ (if ''71'' = [] then [] else CHR ''.'' # ''71'')"
    by (simp add: str_nat.simps digit_char_def)
  have b1: "list_all is_digit ''000001''" by (simp add: is_digit_def)
  have b2: "(0::nat) = 0 \<longrightarrow> length ''000001'' < length (str_nat (nat_of_digits ''000001'')) + 6"
    by (simp add: nat_of_digits_def digit_val_def str_nat.simps)
  have b3: "''-0.000001'' = (if True then ''-'' else '''') @ str_nat 0
              @ (if ''000001'' = [] then [] else CHR ''.'' # ''000001'')"
    by (simp add: str_nat.simps digit_char_def)
  from decimal_text_round_trip [OF a1 a2 a3]
  have "\<exists>d. parse_decimal ''1811.71'' = Some d \<and> str_decimal d = ''1811.71''" by blast
  moreover from decimal_text_round_trip [OF b1 b2 b3]
  have "\<exists>d. parse_decimal ''-0.000001'' = Some d \<and> str_decimal d = ''-0.000001''" by blast
  ultimately show ?thesis using a1 b1 by blast
qed

end
